theory Spec2Isabelle
  imports Complex_Main
begin

section \<open>Strings\<close>

text \<open>
  A JavaScript string is modelled as a \<^typ>\<open>string\<close>: a list of code units below 256.
  The white space of \<^verbatim>\<open>\s\<close> and of \<^verbatim>\<open>String.prototype.trim\<close> in that range is
  TAB, LF, VT, FF, CR, SPACE and NO-BREAK SPACE.
\<close>

definition is_space :: "char \<Rightarrow> bool" where
  "is_space c = (c \<in> {CHR 0x09, CHR 0x0A, CHR 0x0B, CHR 0x0C, CHR 0x0D, CHR 0x20, CHR 0xA0})"

text \<open>\<^verbatim>\<open>s.trim()\<close>\<close>

definition trim :: "string \<Rightarrow> string" where
  "trim s = rev (dropWhile is_space (rev (dropWhile is_space s)))"

text \<open>\<^verbatim>\<open>s.startsWith(p)\<close>, used for the literal parts of the regular expressions.\<close>

definition starts_with :: "string \<Rightarrow> string \<Rightarrow> bool" where
  "starts_with p s = (take (length p) s = p)"

text \<open>\<^verbatim>\<open>s.split(c)\<close> for a one-character separator: the empty string gives one empty piece.\<close>

fun split_on :: "char \<Rightarrow> string \<Rightarrow> string list" where
  "split_on c [] = [[]]"
| "split_on c (x # xs) =
     (if x = c then [] # split_on c xs
      else (case split_on c xs of [] \<Rightarrow> [[x]] | y # ys \<Rightarrow> (x # y) # ys))"

text \<open>\<^verbatim>\<open>pieces.join(sep)\<close>\<close>

fun join :: "string \<Rightarrow> string list \<Rightarrow> string" where
  "join sep [] = []"
| "join sep [x] = x"
| "join sep (x # y # ys) = x @ sep @ join sep (y # ys)"

text \<open>The decimal rendering of a non-negative integer inside a template string.\<close>

definition digit_char :: "nat \<Rightarrow> char" where
  "digit_char d = ''0123456789'' ! d"

fun show_nat :: "nat \<Rightarrow> string" where
  "show_nat n = (if n < 10 then [digit_char n] else show_nat (n div 10) @ [digit_char (n mod 10)])"

declare show_nat.simps [simp del]

text \<open>Truthiness of a string (\<^verbatim>\<open>''\<close> is falsy) and of an optional string (\<^verbatim>\<open>undefined\<close> is falsy).\<close>

definition truthy_str :: "string option \<Rightarrow> bool" where
  "truthy_str x = (case x of None \<Rightarrow> False | Some s \<Rightarrow> s \<noteq> [])"

section \<open>Post-processing of a completion (inlineCompletionProvider.ts)\<close>

definition newline :: char where
  "newline = CHR 0x0A"

definition fence :: string where
  "fence = [CHR 0x60, CHR 0x60, CHR 0x60]"

text \<open>
  The rest of the text after the first closing fence at or after the current position, if there
  is one: the lazy \<^verbatim>\<open>[\s\S]*?\<close> followed by three backticks.
\<close>

fun after_fence :: "string \<Rightarrow> string option" where
  "after_fence [] = None"
| "after_fence (c # cs) =
     (if starts_with fence (c # cs) then Some (drop 3 (c # cs)) else after_fence cs)"

lemma after_fence_length: "after_fence s = Some r \<Longrightarrow> length r < length s"
  by (induction s) (auto split: if_splits)

text \<open>
  \<^verbatim>\<open>text.replace(/```[\s\S]*?```/g, '')\<close>: scanning from the left, every opening fence that has a
  closing fence is deleted together with everything up to and including that closing fence.
\<close>

function strip_fences :: "string \<Rightarrow> string" where
  "strip_fences [] = []"
| "strip_fences (c # cs) =
     (if starts_with fence (c # cs) then
        (case after_fence (drop 3 (c # cs)) of
           Some rest \<Rightarrow> strip_fences rest
         | None \<Rightarrow> c # strip_fences cs)
      else c # strip_fences cs)"
  by pat_completeness auto
termination
proof (relation "measure length")
  show "wf (measure length)" by simp
next
  fix c cs rest
  assume "after_fence (drop 3 (c # cs)) = Some rest"
  then have "length rest < length (drop 3 (c # cs))" by (rule after_fence_length)
  then show "(rest, c # cs) \<in> measure length" by simp
qed simp_all

text \<open>\<^verbatim>\<open>/[{\[(]/\<close>\<close>

definition is_open_bracket :: "char \<Rightarrow> bool" where
  "is_open_bracket c = (c \<in> {CHR ''{'', CHR ''['', CHR ''(''})"

text \<open>\<^verbatim>\<open>/[{\[(]$/.test(s)\<close> and \<^verbatim>\<open>/^[{\[(]/.test(s)\<close>\<close>

definition ends_with_open :: "string \<Rightarrow> bool" where
  "ends_with_open s = (s \<noteq> [] \<and> is_open_bracket (last s))"

definition starts_with_open :: "string \<Rightarrow> bool" where
  "starts_with_open s = (case s of [] \<Rightarrow> False | c # _ \<Rightarrow> is_open_bracket c)"

text \<open>\<^verbatim>\<open>lines.map((ln, i) => i === 0 ? ln : indent + ln)\<close>\<close>

definition indent_lines :: "string \<Rightarrow> string list \<Rightarrow> string list" where
  "indent_lines indent lns = map (\<lambda>(i, ln). if i = 0 then ln else indent @ ln) (enumerate 0 lns)"

definition postProcessCompletion :: "string \<Rightarrow> string \<Rightarrow> string \<Rightarrow> string" where
  "postProcessCompletion text0 language currentLine =
     (let text1 = trim (strip_fences text0);
          indent = takeWhile is_space currentLine;
          text2 = (if newline \<in> set text1
                   then join [newline] (indent_lines indent (split_on newline text1))
                   else text1)
      in if ends_with_open (trim currentLine) \<and> starts_with_open (trim text2)
         then drop 1 (trim text2)
         else text2)"

section \<open>JSON values and awaited results\<close>

text \<open>
  A value produced by \<^verbatim>\<open>JSON.parse\<close>, and the object handed to \<^verbatim>\<open>JSON.stringify\<close>. An
  object is the list of its own properties (names unique); \<^verbatim>\<open>undefined\<close> is \<open>None\<close> of
  \<open>json option\<close>, and a property whose value is \<^verbatim>\<open>undefined\<close> is left out of an object that
  is serialised, as \<^verbatim>\<open>JSON.stringify\<close> does.
\<close>

datatype json = JNull | JBool bool | JNum rat | JStr string | JArr "json list"
  | JObj "(string \<times> json) list"

text \<open>
  What \<^verbatim>\<open>await\<close> gives: the value, or a rejection carrying the message that
  \<^verbatim>\<open>error instanceof Error ? error.message : String(error)\<close> reads from it.
\<close>

datatype 'a thenable = Rejects string | Resolves 'a

fun and_then :: "'a thenable \<Rightarrow> ('a \<Rightarrow> 'b thenable) \<Rightarrow> 'b thenable" where
  "and_then (Rejects e) f = Rejects e"
| "and_then (Resolves x) f = f x"

fun js_truthy :: "json \<Rightarrow> bool" where
  "js_truthy JNull = False"
| "js_truthy (JBool b) = b"
| "js_truthy (JNum n) = (n \<noteq> 0)"
| "js_truthy (JStr s) = (s \<noteq> [])"
| "js_truthy (JArr xs) = True"
| "js_truthy (JObj kvs) = True"

text \<open>\<^verbatim>\<open>v.name\<close> on a value that is not null, for a name no prototype defines.\<close>

fun member :: "string \<Rightarrow> json \<Rightarrow> json option" where
  "member n (JObj kvs) = map_of kvs n"
| "member n v = None"

text \<open>\<^verbatim>\<open>v[0]\<close> on a value that is not null.\<close>

fun index0 :: "json \<Rightarrow> json option" where
  "index0 (JArr xs) = (case xs of [] \<Rightarrow> None | x # _ \<Rightarrow> Some x)"
| "index0 (JStr s) = (case s of [] \<Rightarrow> None | c # _ \<Rightarrow> Some (JStr [c]))"
| "index0 (JObj kvs) = map_of kvs ''0''"
| "index0 v = None"

text \<open>Optional chaining \<^verbatim>\<open>a?.f\<close>: \<^verbatim>\<open>undefined\<close> when \<open>a\<close> is \<^verbatim>\<open>undefined\<close> or \<^verbatim>\<open>null\<close>.\<close>

fun opt_chain :: "json option \<Rightarrow> (json \<Rightarrow> json option) \<Rightarrow> json option" where
  "opt_chain None f = None"
| "opt_chain (Some JNull) f = None"
| "opt_chain (Some v) f = f v"

text \<open>\<^verbatim>\<open>a || b\<close> on a possibly undefined value, with a defined right-hand side.\<close>

definition or_json :: "json option \<Rightarrow> json \<Rightarrow> json" where
  "or_json a b = (case a of None \<Rightarrow> b | Some v \<Rightarrow> if js_truthy v then v else b)"

definition or_str :: "string option \<Rightarrow> string \<Rightarrow> string" where
  "or_str a b = (case a of None \<Rightarrow> b | Some s \<Rightarrow> if s \<noteq> [] then s else b)"

definition or_num :: "rat option \<Rightarrow> rat \<Rightarrow> rat" where
  "or_num a b = (case a of None \<Rightarrow> b | Some v \<Rightarrow> if v \<noteq> 0 then v else b)"

section \<open>The model table (aiModels.ts)\<close>

record AIModel =
  m_name :: string
  m_id :: string
  m_provider :: string
  m_maxTokens :: nat
  m_description :: string
  m_secretKeyName :: string
  m_defaultEndpoint :: string

record Message =
  role :: string
  content :: json

text \<open>
  \<^verbatim>\<open>ApiRequest\<close>; \<^verbatim>\<open>options\<close> is never set by \<^verbatim>\<open>callModel\<close> and is left out. After the
  defaulting in \<^verbatim>\<open>callModel\<close> the two numbers and the endpoint are always defined.
\<close>

record ApiRequest =
  q_prompt :: string
  q_systemPrompt :: "string option"
  q_maxTokens :: rat
  q_temperature :: rat
  q_apiKey :: string
  q_endpoint :: string
  q_messages :: "Message list option"

text \<open>
  \<^verbatim>\<open>ApiResponse\<close>. The interface types \<^verbatim>\<open>text\<close> as a string, but three of the four decoders
  store whatever truthy value the vendor's JSON holds there, so the field is a JSON value. The
  \<^verbatim>\<open>usage\<close> counters are left out: nothing reads them, and computing them cannot throw once the
  text has been read.
\<close>

record ApiResponse =
  r_text :: json
  r_model :: string
  r_error :: "string option"

definition SUPPORTED_MODELS :: "AIModel list" where
  "SUPPORTED_MODELS =
    [\<lparr>m_name = ''GPT-4'', m_id = ''gpt-4'', m_provider = ''OpenAI'', m_maxTokens = 4000,
       m_description = ''OpenAI GPT-4 - Advanced reasoning capabilities'',
       m_secretKeyName = ''openaiApiKey'',
       m_defaultEndpoint = ''https://api.openai.com/v1/chat/completions''\<rparr>,
     \<lparr>m_name = ''GPT-3.5 Turbo'', m_id = ''gpt-3.5-turbo'', m_provider = ''OpenAI'',
       m_maxTokens = 4000,
       m_description = ''OpenAI GPT-3.5 Turbo - Fast and cost-effective'',
       m_secretKeyName = ''openaiApiKey'',
       m_defaultEndpoint = ''https://api.openai.com/v1/chat/completions''\<rparr>,
     \<lparr>m_name = ''Claude 3 Opus'', m_id = ''claude-3-opus'', m_provider = ''Anthropic'',
       m_maxTokens = 4000,
       m_description = ''Anthropic Claude 3 Opus - Most capable Claude model'',
       m_secretKeyName = ''anthropicApiKey'',
       m_defaultEndpoint = ''https://api.anthropic.com/v1/messages''\<rparr>,
     \<lparr>m_name = ''Claude 3 Sonnet'', m_id = ''claude-3-sonnet'', m_provider = ''Anthropic'',
       m_maxTokens = 4000,
       m_description = ''Anthropic Claude 3 Sonnet - Balanced performance'',
       m_secretKeyName = ''anthropicApiKey'',
       m_defaultEndpoint = ''https://api.anthropic.com/v1/messages''\<rparr>,
     \<lparr>m_name = ''Gemini Pro'', m_id = ''gemini-pro'', m_provider = ''Google'',
       m_maxTokens = 4000,
       m_description = ''Google Gemini Pro - Google'' @ [CHR 0x27] @ ''s advanced AI model'',
       m_secretKeyName = ''googleApiKey'',
       m_defaultEndpoint =
         ''https://generativelanguage.googleapis.com/v1beta/models/gemini-pro:generateContent''\<rparr>,
     \<lparr>m_name = ''Gemini 1.5 Pro'', m_id = ''gemini-1.5-pro'', m_provider = ''Google'',
       m_maxTokens = 8000,
       m_description = ''Google Gemini 1.5 Pro - Latest Google AI model'',
       m_secretKeyName = ''googleApiKey'',
       m_defaultEndpoint =
         ''https://generativelanguage.googleapis.com/v1beta/models/gemini-1.5-pro:generateContent''\<rparr>,
     \<lparr>m_name = ''Custom Model'', m_id = ''custom'', m_provider = ''Custom'', m_maxTokens = 4000,
       m_description = ''Custom API endpoint for other models'',
       m_secretKeyName = ''customApiKey'',
       m_defaultEndpoint = []\<rparr>]"

definition getModelById :: "string \<Rightarrow> AIModel option" where
  "getModelById i = find (\<lambda>m. m_id m = i) SUPPORTED_MODELS"

section \<open>The API client (apiClient.ts)\<close>

text \<open>The \<^verbatim>\<open>options\<close> argument of \<^verbatim>\<open>callModel\<close>; every field is optional.\<close>

record CallOptions =
  o_systemPrompt :: "string option"
  o_maxTokens :: "rat option"
  o_temperature :: "rat option"
  o_endpoint :: "string option"
  o_messages :: "Message list option"

text \<open>The argument of \<^verbatim>\<open>fetch\<close>: the URL, and the method, headers and body of its second argument.\<close>

record HttpRequest =
  h_url :: string
  h_method :: string
  h_headers :: "(string \<times> string) list"
  h_body :: json

text \<open>
  What the client reads of a response: \<^verbatim>\<open>ok\<close>, \<^verbatim>\<open>status\<close>, and what \<^verbatim>\<open>await response.text()\<close>
  and \<^verbatim>\<open>await response.json()\<close> give.
\<close>

record HttpResponse =
  p_ok :: bool
  p_status :: nat
  p_text :: "string thenable"
  p_json :: "json thenable"

text \<open>
  What the client reads from outside itself: the secret storage, three settings of the
  \<^verbatim>\<open>eyAgent\<close> configuration (\<open>None\<close> where a setting is not set), and the network.
\<close>

record ClientEnv =
  secrets :: "string \<Rightarrow> string option thenable"
  customModelEndpoint :: "string option"
  cfg_maxTokens :: "rat option"
  cfg_temperature :: "rat option"
  fetch :: "HttpRequest \<Rightarrow> HttpResponse thenable"

text \<open>
  The message of the \<^verbatim>\<open>TypeError\<close> raised by reading the property \<open>name\<close> of \<^verbatim>\<open>null\<close>, and of
  the one raised by the call of a \<^verbatim>\<open>trim\<close> that is \<^verbatim>\<open>undefined\<close>, in the wording of the engine
  the editor runs on (V8).
\<close>

definition type_error_null :: "string \<Rightarrow> string" where
  "type_error_null name =
     ''Cannot read properties of null (reading '' @ [CHR 0x27] @ name @ [CHR 0x27] @ '')''"

definition type_error_not_a_function :: string where
  "type_error_not_a_function = ''data.choices?.[0]?.message?.content?.trim is not a function''"

definition messages_json :: "Message list \<Rightarrow> json" where
  "messages_json ms = JArr (map (\<lambda>m. JObj [(''role'', JStr (role m)), (''content'', content m)]) ms)"

text \<open>
  The part the four \<^verbatim>\<open>call...\<close> methods share after \<^verbatim>\<open>fetch\<close>: a response that is not ok is
  thrown as an error naming the vendor, the status and the body; otherwise the JSON is decoded.
\<close>

definition read_response ::
  "string \<Rightarrow> (json \<Rightarrow> ApiResponse thenable) \<Rightarrow> HttpResponse \<Rightarrow> ApiResponse thenable" where
  "read_response vendor decode response =
     (if \<not> p_ok response then
        and_then (p_text response) (\<lambda>errorText.
          Rejects (vendor @ '' API error ('' @ show_nat (p_status response) @ ''): '' @ errorText))
      else and_then (p_json response) decode)"

text \<open>\<^verbatim>\<open>data.choices?.[0]?.message?.content?.trim() || ''\<close>\<close>

definition openai_text :: "json \<Rightarrow> json thenable" where
  "openai_text data =
     (if data = JNull then Rejects (type_error_null ''choices'')
      else (case opt_chain (opt_chain (opt_chain (member ''choices'' data) index0)
                     (member ''message'')) (member ''content'') of
              None \<Rightarrow> Resolves (JStr [])
            | Some JNull \<Rightarrow> Resolves (JStr [])
            | Some (JStr s) \<Rightarrow> Resolves (JStr (trim s))
            | Some _ \<Rightarrow> Rejects type_error_not_a_function))"

definition callOpenAI ::
  "ClientEnv \<Rightarrow> ApiRequest \<Rightarrow> AIModel \<Rightarrow> ApiResponse thenable \<times> HttpRequest list" where
  "callOpenAI env request m =
     (let messages =
            (case q_messages request of
               Some ms \<Rightarrow> ms
             | None \<Rightarrow>
                 (case q_systemPrompt request of
                    None \<Rightarrow> []
                  | Some sp \<Rightarrow> if sp \<noteq> [] then [\<lparr>role = ''system'', content = JStr sp\<rparr>] else [])
                 @ [\<lparr>role = ''user'', content = JStr (q_prompt request)\<rparr>]);
          req = \<lparr>h_url = or_str (Some (q_endpoint request)) (m_defaultEndpoint m),
                 h_method = ''POST'',
                 h_headers = [(''Content-Type'', ''application/json''),
                              (''Authorization'', ''Bearer '' @ q_apiKey request)],
                 h_body = JObj [(''model'', JStr (m_id m)),
                                (''messages'', messages_json messages),
                                (''max_tokens'', JNum (q_maxTokens request)),
                                (''temperature'', JNum (q_temperature request))]\<rparr>
      in (and_then (fetch env req)
            (read_response ''OpenAI'' (\<lambda>data. and_then (openai_text data) (\<lambda>t.
               Resolves \<lparr>r_text = t, r_model = m_id m, r_error = None\<rparr>))),
          [req]))"

text \<open>\<^verbatim>\<open>data.content?.[0]?.text || ''\<close>\<close>

definition anthropic_text :: "json \<Rightarrow> json thenable" where
  "anthropic_text data =
     (if data = JNull then Rejects (type_error_null ''content'')
      else Resolves (or_json (opt_chain (opt_chain (member ''content'' data) index0)
                       (member ''text'')) (JStr [])))"

definition callAnthropic ::
  "ClientEnv \<Rightarrow> ApiRequest \<Rightarrow> AIModel \<Rightarrow> ApiResponse thenable \<times> HttpRequest list" where
  "callAnthropic env request m =
     (let messages =
            (case q_messages request of
               Some ms \<Rightarrow> ms
             | None \<Rightarrow> [\<lparr>role = ''user'', content = JStr (q_prompt request)\<rparr>]);
          req = \<lparr>h_url = or_str (Some (q_endpoint request)) (m_defaultEndpoint m),
                 h_method = ''POST'',
                 h_headers = [(''Content-Type'', ''application/json''),
                              (''X-API-Key'', q_apiKey request),
                              (''anthropic-version'', ''2023-06-01'')],
                 h_body = JObj ([(''model'', JStr (m_id m)),
                                 (''messages'', messages_json messages)]
                                @ (case q_systemPrompt request of
                                     None \<Rightarrow> []
                                   | Some sp \<Rightarrow> [(''system'', JStr sp)])
                                @ [(''max_tokens'', JNum (q_maxTokens request))])\<rparr>
      in (and_then (fetch env req)
            (read_response ''Anthropic'' (\<lambda>data. and_then (anthropic_text data) (\<lambda>t.
               Resolves \<lparr>r_text = t, r_model = m_id m, r_error = None\<rparr>))),
          [req]))"

text \<open>\<^verbatim>\<open>data.candidates?.[0]?.content?.parts?.[0]?.text || ''\<close>\<close>

definition google_text :: "json \<Rightarrow> json thenable" where
  "google_text data =
     (if data = JNull then Rejects (type_error_null ''candidates'')
      else Resolves (or_json
        (opt_chain (opt_chain (opt_chain (opt_chain (opt_chain (member ''candidates'' data) index0)
           (member ''content'')) (member ''parts'')) index0) (member ''text'')) (JStr [])))"

definition callGoogle ::
  "ClientEnv \<Rightarrow> ApiRequest \<Rightarrow> AIModel \<Rightarrow> ApiResponse thenable \<times> HttpRequest list" where
  "callGoogle env request m =
     (let apiEndpoint = or_str (Some (q_endpoint request)) (m_defaultEndpoint m);
          apiUrl = apiEndpoint @ ''?key='' @ q_apiKey request;
          messages =
            (case q_messages request of
               Some ms \<Rightarrow> ms
             | None \<Rightarrow> [\<lparr>role = ''user'', content = JStr (q_prompt request)\<rparr>]);
          contents = map (\<lambda>msg. JObj [(''role'', JStr (if role msg = ''system'' then ''user''
                                                       else role msg)),
                                      (''parts'', JArr [JObj [(''text'', content msg)]])])
                         messages;
          req = \<lparr>h_url = apiUrl,
                 h_method = ''POST'',
                 h_headers = [(''Content-Type'', ''application/json'')],
                 h_body = JObj [(''contents'', JArr contents),
                                (''generationConfig'',
                                   JObj [(''maxOutputTokens'', JNum (q_maxTokens request)),
                                         (''temperature'', JNum (q_temperature request))])]\<rparr>
      in (and_then (fetch env req)
            (read_response ''Google'' (\<lambda>data. and_then (google_text data) (\<lambda>t.
               Resolves \<lparr>r_text = t, r_model = m_id m, r_error = None\<rparr>))),
          [req]))"

text \<open>\<^verbatim>\<open>data.choices?.[0]?.message?.content || data.text || data.completion || ''\<close>\<close>

definition custom_text :: "json \<Rightarrow> json thenable" where
  "custom_text data =
     (if data = JNull then Rejects (type_error_null ''choices'')
      else Resolves
        (or_json (opt_chain (opt_chain (opt_chain (member ''choices'' data) index0)
                    (member ''message'')) (member ''content''))
           (or_json (member ''text'' data) (or_json (member ''completion'' data) (JStr [])))))"

definition callCustomModel ::
  "ClientEnv \<Rightarrow> ApiRequest \<Rightarrow> AIModel \<Rightarrow> ApiResponse thenable \<times> HttpRequest list" where
  "callCustomModel env request m =
     (if q_endpoint request = [] then (Rejects ''No endpoint specified for custom model'', [])
      else
        (let req = \<lparr>h_url = q_endpoint request,
                    h_method = ''POST'',
                    h_headers = [(''Content-Type'', ''application/json''),
                                 (''Authorization'', ''Bearer '' @ q_apiKey request)],
                    h_body = JObj [(''prompt'', JStr (q_prompt request)),
                                   (''max_tokens'', JNum (q_maxTokens request)),
                                   (''temperature'', JNum (q_temperature request))]\<rparr>
         in (and_then (fetch env req)
               (read_response ''Custom'' (\<lambda>data. and_then (custom_text data) (\<lambda>t.
                  Resolves \<lparr>r_text = t, r_model = ''custom'', r_error = None\<rparr>))),
             [req])))"

text \<open>
  Lines 55 to 79 of \<^verbatim>\<open>callModel\<close>: the endpoint, the two defaulted numbers and the request
  record, for a model whose API key has been read.
\<close>

definition build_request ::
  "ClientEnv \<Rightarrow> AIModel \<Rightarrow> string \<Rightarrow> string \<Rightarrow> CallOptions \<Rightarrow> ApiRequest" where
  "build_request env m apiKey prompt options =
     (let endpoint0 = or_str (o_endpoint options) (m_defaultEndpoint m);
          endpoint = (if m_id m = ''custom''
                      then or_str (customModelEndpoint env) endpoint0
                      else endpoint0);
          maxTokens = or_num (o_maxTokens options) (or_num (cfg_maxTokens env) 1024);
          temperature = or_num (o_temperature options) (or_num (cfg_temperature env) (7 / 10))
      in \<lparr>q_prompt = prompt,
          q_systemPrompt = o_systemPrompt options,
          q_maxTokens = maxTokens,
          q_temperature = temperature,
          q_apiKey = apiKey,
          q_endpoint = endpoint,
          q_messages = o_messages options\<rparr>)"

text \<open>
  \<^verbatim>\<open>callModel\<close>: what the returned promise settles to, and the requests handed to \<^verbatim>\<open>fetch\<close>
  on the way. The \<^verbatim>\<open>try\<close> block encloses the dispatch only; the read of the secret is before
  it.
\<close>

definition callModel ::
  "ClientEnv \<Rightarrow> string \<Rightarrow> string \<Rightarrow> CallOptions \<Rightarrow> ApiResponse thenable \<times> HttpRequest list" where
  "callModel env modelId prompt options =
     (case getModelById modelId of
        None \<Rightarrow>
          (Resolves \<lparr>r_text = JStr ''Error: Invalid model ID'', r_model = modelId,
                     r_error = Some ''Invalid model ID''\<rparr>, [])
      | Some m \<Rightarrow>
          (case secrets env (m_secretKeyName m) of
             Rejects e \<Rightarrow> (Rejects e, [])
           | Resolves apiKey \<Rightarrow>
               (if \<not> truthy_str apiKey then
                  (Resolves \<lparr>r_text = JStr (''Error: No API key found for '' @ m_name m
                                @ ''. Please set your API key in the extension settings.''),
                             r_model = m_id m, r_error = Some ''No API key found''\<rparr>, [])
                else
                  (let request = build_request env m (the apiKey) prompt options;
                       (result, sent) =
                         (if m_provider m = ''OpenAI'' then callOpenAI env request m
                          else if m_provider m = ''Anthropic'' then callAnthropic env request m
                          else if m_provider m = ''Google'' then callGoogle env request m
                          else if m_provider m = ''Custom'' then callCustomModel env request m
                          else (Resolves \<lparr>r_text = JStr (''Error: Unsupported model provider ''
                                                           @ m_provider m),
                                           r_model = m_id m,
                                           r_error = Some (''Unsupported model provider ''
                                                           @ m_provider m)\<rparr>, []))
                   in (case result of
                         Resolves r \<Rightarrow> (Resolves r, sent)
                       | Rejects e \<Rightarrow>
                           (Resolves \<lparr>r_text = JStr (''Error: '' @ e), r_model = m_id m,
                                      r_error = Some e\<rparr>, sent))))))"

section \<open>The chat view (chatViewProvider.ts)\<close>

text \<open>
  The object's two fields: whether the webview has been resolved, and the history. The messages
  posted to the webview are display only and are not modelled.
\<close>

record ChatViewProvider =
  view :: bool
  chatHistory :: "Message list"

text \<open>What \<^verbatim>\<open>_getWorkspaceContext\<close> reads of the active editor.\<close>

record Editor =
  e_fileName :: string
  e_text :: string
  e_visibleRanges :: "string list"

record ChatEnv =
  defaultModel :: "string option"
  activeTextEditor :: "Editor option"

definition clearChat :: "ChatViewProvider \<Rightarrow> ChatViewProvider" where
  "clearChat c = c\<lparr>chatHistory := []\<rparr>"

definition clearHistory :: "ChatViewProvider \<Rightarrow> ChatViewProvider" where
  "clearHistory c = clearChat c"

definition getWorkspaceContext :: "ChatEnv \<Rightarrow> string option" where
  "getWorkspaceContext cenv =
     (case activeTextEditor cenv of
        None \<Rightarrow> None
      | Some editor \<Rightarrow>
          (if length (e_text editor) > 5000 \<and> e_visibleRanges editor \<noteq> []
           then Some (''File: '' @ e_fileName editor @ '' (visible portion)'' @ [newline, newline]
                      @ hd (e_visibleRanges editor))
           else Some (''File: '' @ e_fileName editor @ [newline, newline] @ e_text editor)))"

definition chat_system_prompt :: string where
  "chat_system_prompt = ''You are an AI coding assistant helping with programming tasks.''"

text \<open>
  The arguments \<^verbatim>\<open>_sendMessage\<close> passes to \<^verbatim>\<open>callModel\<close>, given the history after the user's
  message has been pushed. The copy \<^verbatim>\<open>[...this._chatHistory]\<close> is taken before the first
  \<^verbatim>\<open>await\<close>.
\<close>

definition chat_call :: "ChatEnv \<Rightarrow> Message list \<Rightarrow> string \<times> CallOptions" where
  "chat_call cenv history =
     (let modelId = or_str (defaultModel cenv) ''gpt-4'';
          shouldAddContext = (length history = 1);
          systemPrompt =
            (if shouldAddContext then
               (case getWorkspaceContext cenv of
                  None \<Rightarrow> chat_system_prompt
                | Some workspaceContext \<Rightarrow>
                    if workspaceContext \<noteq> []
                    then chat_system_prompt
                         @ '' Here is some context from the current workspace:''
                         @ [newline, newline] @ workspaceContext
                    else chat_system_prompt)
             else chat_system_prompt)
      in (modelId, \<lparr>o_systemPrompt = Some systemPrompt, o_maxTokens = Some 1000,
                    o_temperature = None, o_endpoint = None, o_messages = Some history\<rparr>))"

text \<open>
  \<^verbatim>\<open>_sendMessage\<close>, run to its end with no other handler in between: the new object and the
  requests handed to \<^verbatim>\<open>fetch\<close>.
\<close>

definition sendMessage ::
  "ClientEnv \<Rightarrow> ChatEnv \<Rightarrow> ChatViewProvider \<Rightarrow> string \<Rightarrow> ChatViewProvider \<times> HttpRequest list" where
  "sendMessage env cenv c message =
     (if \<not> view c then (c, [])
      else
        (let history = chatHistory c @ [\<lparr>role = ''user'', content = JStr message\<rparr>];
             (modelId, options) = chat_call cenv history;
             (result, sent) = callModel env modelId message options;
             reply =
               (case result of
                  Resolves response \<Rightarrow>
                    \<lparr>role = ''assistant'',
                     content = (if truthy_str (r_error response)
                                then JStr (the (r_error response))
                                else r_text response)\<rparr>
                | Rejects e \<Rightarrow> \<lparr>role = ''assistant'', content = JStr (''Error: '' @ e)\<rparr>)
         in (c\<lparr>chatHistory := history @ [reply]\<rparr>, sent)))"

section \<open>Documents and positions (the editor's API, as the provider uses it)\<close>

record Position =
  line :: nat
  character :: nat

text \<open>
  A text document: its URI as \<^verbatim>\<open>uri.toString()\<close> prints it, the file name, the language
  identifier, the text of each line without its line break, and the line break.
\<close>

record TextDocument =
  uri :: string
  fileName :: string
  languageId :: string
  lines :: "string list"
  eol :: string

text \<open>\<^verbatim>\<open>document.lineAt(n).text\<close>; the editor throws on a line number out of range.\<close>

definition lineAt :: "TextDocument \<Rightarrow> nat \<Rightarrow> string option" where
  "lineAt document n = (if n < length (lines document) then Some (lines document ! n) else None)"

text \<open>
  \<^verbatim>\<open>document.getText(new Range(new Position(0, 0), position))\<close>; the editor moves a position
  beyond the text back to the end of the line or of the document.
\<close>

definition getText_upto :: "TextDocument \<Rightarrow> Position \<Rightarrow> string" where
  "getText_upto document position =
     (if line position < length (lines document)
      then concat (map (\<lambda>l. l @ eol document) (take (line position) (lines document)))
           @ take (character position) (lines document ! line position)
      else join (eol document) (lines document))"

text \<open>What the provider reads of the \<^verbatim>\<open>InlineCompletionContext\<close>: whether a menu item is selected.\<close>

record InlineCompletionContext =
  selectedCompletionInfo :: bool

text \<open>An item made by \<^verbatim>\<open>new InlineCompletionItem(text, new Range(position, position))\<close>.\<close>

record InlineCompletionItem =
  insertText :: string
  range :: "Position \<times> Position"

section \<open>Skip conditions (inlineCompletionProvider.ts)\<close>

text \<open>
  The number of matches of a global regular expression for two literal characters:
  \<^verbatim>\<open>(txt.match(/\/\*/g) || []).length\<close>. After a match the search goes on behind it.
\<close>

fun count_pair :: "char \<Rightarrow> char \<Rightarrow> string \<Rightarrow> nat" where
  "count_pair a b (x # y # r) =
     (if x = a \<and> y = b then Suc (count_pair a b r) else count_pair a b (y # r))"
| "count_pair a b r = 0"

definition isInComment :: "TextDocument \<Rightarrow> Position \<Rightarrow> bool" where
  "isInComment document position =
     (let txt = getText_upto document position;
          opens = count_pair CHR ''/'' CHR ''*'' txt;
          closes = count_pair CHR ''*'' CHR ''/'' txt
      in opens > closes)"

definition isInString :: "TextDocument \<Rightarrow> Position \<Rightarrow> bool option" where
  "isInString document position =
     (case lineAt document (line position) of
        None \<Rightarrow> None
      | Some l \<Rightarrow>
          (let ln = take (character position) l;
               sq = count_list ln (CHR 0x27);
               dq = count_list ln (CHR 0x22);
               bt = count_list ln (CHR 0x60)
           in Some (sq mod 2 = 1 \<or> dq mod 2 = 1 \<or> bt mod 2 = 1)))"

text \<open>\<open>None\<close>: \<^verbatim>\<open>lineAt\<close> threw.\<close>

definition shouldSkipCompletion ::
  "TextDocument \<Rightarrow> Position \<Rightarrow> InlineCompletionContext \<Rightarrow> bool option" where
  "shouldSkipCompletion document position context =
     (if selectedCompletionInfo context then Some True
      else (case lineAt document (line position) of
              None \<Rightarrow> None
            | Some lineText \<Rightarrow>
                if trim lineText = [] then Some True
                else if isInComment document position then Some True
                else (case isInString document position of
                        None \<Rightarrow> None
                      | Some b \<Rightarrow> if b then Some True else Some False)))"

section \<open>Context gathering (inlineCompletionProvider.ts)\<close>

text \<open>
  The regular expressions of the language table: a sequence of literals and of repeated
  character classes \<^verbatim>\<open>\s\<close>, \<^verbatim>\<open>\w\<close> and \<^verbatim>\<open>.\<close>, matched anywhere in a line.
\<close>

datatype char_class = Space | Word | Dot

datatype atom = Lit string | Star char_class | Plus char_class

definition is_word :: "char \<Rightarrow> bool" where
  "is_word c = (let n = (of_char c :: nat)
                in (48 \<le> n \<and> n \<le> 57) \<or> (65 \<le> n \<and> n \<le> 90) \<or> (97 \<le> n \<and> n \<le> 122) \<or> n = 95)"

fun in_class :: "char_class \<Rightarrow> char \<Rightarrow> bool" where
  "in_class Space c = is_space c"
| "in_class Word c = is_word c"
| "in_class Dot c = (c \<noteq> CHR 0x0A \<and> c \<noteq> CHR 0x0D)"

fun match_here :: "atom list \<Rightarrow> string \<Rightarrow> bool" where
  "match_here [] s = True"
| "match_here (Lit l # r) s = (starts_with l s \<and> match_here r (drop (length l) s))"
| "match_here (Star k # r) s =
     (match_here r s \<or> (case s of [] \<Rightarrow> False | c # cs \<Rightarrow> in_class k c \<and> match_here (Star k # r) cs))"
| "match_here (Plus k # r) s =
     (case s of [] \<Rightarrow> False | c # cs \<Rightarrow> in_class k c \<and> match_here (Star k # r) cs)"

fun match_anywhere :: "atom list \<Rightarrow> string \<Rightarrow> bool" where
  "match_anywhere r [] = match_here r []"
| "match_anywhere r (c # cs) = (match_here r (c # cs) \<or> match_anywhere r cs)"

text \<open>
  An element of \<^verbatim>\<open>importantSections\<close>. The built-in ones are regular expressions; one merged in
  from the user's settings is JSON, whose \<^verbatim>\<open>test\<close> is not a function.
\<close>

datatype pattern = RegExp "atom list" | NotRegExp

text \<open>\<^verbatim>\<open>patterns.some(p => p.test(line))\<close>; \<open>None\<close>: a \<^verbatim>\<open>TypeError\<close> was thrown.\<close>

fun some_test :: "pattern list \<Rightarrow> string \<Rightarrow> bool option" where
  "some_test [] l = Some False"
| "some_test (RegExp r # ps) l = (if match_anywhere r l then Some True else some_test ps l)"
| "some_test (NotRegExp # ps) l = None"

record LangConfig =
  contextLines :: int
  fileImportance :: int
  importantSections :: "pattern list"

text \<open>
  The \<^verbatim>\<open>languageConfig\<close> object: its \<^verbatim>\<open>default\<close> property, which always exists, its other
  own properties, and its prototype when an assignment to \<^verbatim>\<open>__proto__\<close> has replaced
  \<^verbatim>\<open>Object.prototype\<close> by an entry (\<open>None\<close>: it is \<^verbatim>\<open>Object.prototype\<close>).
\<close>

record LanguageTable =
  default_config :: LangConfig
  by_language :: "string \<Rightarrow> LangConfig option"
  prototype :: "LangConfig option"

text \<open>
  What \<^verbatim>\<open>this.languageConfig[language] || this.languageConfig.default\<close> gives: an entry, or
  a truthy value that is not an entry and has no \<^verbatim>\<open>contextLines\<close> and no
  \<^verbatim>\<open>fileImportance\<close> (a function inherited from \<^verbatim>\<open>Object.prototype\<close>, \<^verbatim>\<open>Object.prototype\<close>
  itself, or a number or an array inherited from an entry that is the prototype).
\<close>

datatype config_value = Entry LangConfig | NotEntry

text \<open>The names \<^verbatim>\<open>Object.prototype\<close> defines, \<^verbatim>\<open>__proto__\<close> apart.\<close>

definition object_prototype_members :: "string list" where
  "object_prototype_members =
     [''constructor'', ''__defineGetter__'', ''__defineSetter__'', ''hasOwnProperty'',
      ''__lookupGetter__'', ''__lookupSetter__'', ''isPrototypeOf'', ''propertyIsEnumerable'',
      ''toString'', ''valueOf'', ''toLocaleString'']"

text \<open>
  The look-up goes through the own properties, then through the properties of an entry that
  is the prototype, then through \<^verbatim>\<open>Object.prototype\<close>; a value found that is falsy (the
  number 0) gives way to the \<^verbatim>\<open>default\<close> entry, as a name that is not found does.
\<close>

definition lookup_config :: "LanguageTable \<Rightarrow> string \<Rightarrow> config_value" where
  "lookup_config t language =
     (if language = ''default'' then Entry (default_config t)
      else
        (case by_language t language of
           Some c \<Rightarrow> Entry c
         | None \<Rightarrow>
             (let inherited = (if language \<in> set object_prototype_members then NotEntry
                               else Entry (default_config t))
              in case prototype t of
                   None \<Rightarrow> if language = ''__proto__'' then NotEntry else inherited
                 | Some c \<Rightarrow>
                     if language = ''__proto__'' then Entry c
                     else if language = ''contextLines''
                     then (if contextLines c \<noteq> 0 then NotEntry else Entry (default_config t))
                     else if language = ''fileImportance''
                     then (if fileImportance c \<noteq> 0 then NotEntry else Entry (default_config t))
                     else if language = ''importantSections'' then NotEntry
                     else inherited)))"

definition ws1 :: atom where "ws1 = Plus Space"
definition word1 :: atom where "word1 = Plus Word"

definition builtin_languageConfig :: LanguageTable where
  "builtin_languageConfig =
     \<lparr>default_config = \<lparr>contextLines = 30, fileImportance = 5, importantSections = []\<rparr>,
      by_language = map_of
        [(''typescript'', \<lparr>contextLines = 50, fileImportance = 7, importantSections =
            [RegExp [Lit ''interface'', ws1, word1], RegExp [Lit ''class'', ws1, word1],
             RegExp [Lit ''function'', ws1, word1], RegExp [Lit ''type'', ws1, word1]]\<rparr>),
         (''javascript'', \<lparr>contextLines = 50, fileImportance = 7, importantSections =
            [RegExp [Lit ''class'', ws1, word1], RegExp [Lit ''function'', ws1, word1],
             RegExp [Lit ''const'', ws1, word1, Star Space, Lit ''='', Star Space, Lit ''function''],
             RegExp [Lit ''export'', ws1]]\<rparr>),
         (''python'', \<lparr>contextLines = 40, fileImportance = 8, importantSections =
            [RegExp [Lit ''def'', ws1, word1], RegExp [Lit ''class'', ws1, word1],
             RegExp [Lit ''import'', ws1],
             RegExp [Lit ''from'', ws1, Plus Dot, ws1, Lit ''import'']]\<rparr>),
         (''java'', \<lparr>contextLines = 60, fileImportance = 5, importantSections =
            [RegExp [Lit ''class'', ws1, word1], RegExp [Lit ''interface'', ws1, word1],
             RegExp [Lit ''public'', ws1, word1], RegExp [Lit ''private'', ws1, word1]]\<rparr>)],
      prototype = None\<rparr>"

text \<open>\<open>None\<close>: \<^verbatim>\<open>test\<close> threw on some line.\<close>

fun important_lines :: "pattern list \<Rightarrow> string list \<Rightarrow> string option" where
  "important_lines ps [] = Some []"
| "important_lines ps (l # ls) =
     (case some_test ps l of
        None \<Rightarrow> None
      | Some b \<Rightarrow> (case important_lines ps ls of
                    None \<Rightarrow> None
                  | Some decl \<Rightarrow> Some ((if b then l @ [newline] else []) @ decl)))"

definition getImportantDeclarations ::
  "TextDocument \<Rightarrow> Position \<Rightarrow> pattern list \<Rightarrow> string option" where
  "getImportantDeclarations document position patterns =
     important_lines patterns (take (min (length (lines document)) 200) (lines document))"

definition getLanguageHint :: "string \<Rightarrow> string option \<Rightarrow> string" where
  "getLanguageHint language ext =
     (let fileType = (case ext of None \<Rightarrow> []
                      | Some e \<Rightarrow> if e \<noteq> [] then '' ('' @ e @ '' file)'' else [])
      in ''// Language: '' @ language @ fileType)"

record CompletionContext =
  prefixCode :: string
  currentLine :: "string option"
  completePrompt :: string

text \<open>
  \<open>None\<close>: an exception (\<^verbatim>\<open>lineAt\<close> on a line the document no longer has, or \<^verbatim>\<open>test\<close> on a
  pattern that is not a regular expression). \<^verbatim>\<open>currentLine\<close> is \<^verbatim>\<open>undefined\<close> when the
  loop ran no round: with a negative \<^verbatim>\<open>contextLines\<close>, and with a value that is not an entry,
  whose \<^verbatim>\<open>contextLines\<close> is \<^verbatim>\<open>undefined\<close>, so that \<^verbatim>\<open>start\<close> is \<^verbatim>\<open>NaN\<close>; the comparison of its
  \<^verbatim>\<open>fileImportance\<close> with 3 is then false.
\<close>

definition getSmartCompletionContext ::
  "LanguageTable \<Rightarrow> TextDocument \<Rightarrow> Position \<Rightarrow> string \<Rightarrow> CompletionContext option" where
  "getSmartCompletionContext table document position language =
     (let hint = getLanguageHint language (Some (last (split_on CHR ''.'' (fileName document))))
      in case lookup_config table language of
           NotEntry \<Rightarrow>
             Some \<lparr>prefixCode = [], currentLine = None, completePrompt = hint @ [newline]\<rparr>
         | Entry cfg \<Rightarrow>
             (let start = nat (max 0 (int (line position) - contextLines cfg));
                  rounds = [start..<Suc (line position)]
              in if list_ex (\<lambda>i. length (lines document) \<le> i) rounds then None
                 else
                   (let lns = map (\<lambda>i. if i = line position
                                        then take (character position) (lines document ! i)
                                        else lines document ! i) rounds;
                        prefix = join [newline] lns;
                        imports =
                          (if fileImportance cfg > 3
                           then (case getImportantDeclarations document position
                                        (importantSections cfg) of
                                   None \<Rightarrow> None
                                 | Some decl \<Rightarrow> Some (if decl \<noteq> [] then decl @ [newline] else decl))
                           else Some [])
                    in (case imports of
                          None \<Rightarrow> None
                        | Some imp \<Rightarrow>
                            Some \<lparr>prefixCode = prefix,
                                  currentLine = (if lns = [] then None else Some (last lns)),
                                  completePrompt = hint @ [newline] @ imp @ prefix\<rparr>))))"

section \<open>The completion provider (inlineCompletionProvider.ts)\<close>

text \<open>
  What the closure passed to \<^verbatim>\<open>setTimeout\<close> holds: the cache key, the position, the promise
  its \<^verbatim>\<open>resolve\<close> settles, and the delay it was scheduled with. The document and the
  cancellation token it also holds are live objects; their state is read when the closure runs.
\<close>

record Callback =
  cb_key :: string
  cb_position :: Position
  cb_promise :: nat
  cb_delay :: int

text \<open>The closure suspended at \<^verbatim>\<open>await this.apiClient.callModel(...)\<close>.\<close>

record Awaiting =
  aw_callback :: Callback
  aw_language :: string
  aw_currentLine :: string

text \<open>The arguments of one call of \<^verbatim>\<open>callModel\<close>.\<close>

record ModelCall =
  c_model :: string
  c_prompt :: string
  c_options :: CallOptions

text \<open>
  The provider's fields, followed by what the event loop holds for it: the timers that are
  scheduled, the closures waiting for \<^verbatim>\<open>callModel\<close> (numbered by call), every call of
  \<^verbatim>\<open>callModel\<close> made so far, and the promises that are settled, with their values. Promises and
  timers are numbered in the order of their creation.
\<close>

record Provider =
  enabled :: bool
  debounceTimeout :: "nat option"
  lastCompletionTime :: int
  pendingCompletions :: "string \<Rightarrow> nat option"
  completionCache :: "string \<Rightarrow> (int \<times> InlineCompletionItem list) option"
  languageConfig :: LanguageTable
  timers :: "(nat \<times> Callback) list"
  nextTimer :: nat
  awaiting :: "(nat \<times> Awaiting) list"
  issued :: "ModelCall list"
  settled :: "nat \<Rightarrow> InlineCompletionItem list option"
  nextPromise :: nat

text \<open>One language's entry in the \<^verbatim>\<open>inlineCompletions.languageSettings\<close> setting.\<close>

record LangOverride =
  ov_contextLines :: "int option"
  ov_fileImportance :: "int option"
  ov_importantSections :: "nat option"

text \<open>
  \<^verbatim>\<open>{...this.languageConfig.default, ...customLanguageSettings[lang]}\<close>. A list of patterns
  given in the settings has that many elements, none of them a regular expression.
\<close>

definition merge_override :: "LangConfig \<Rightarrow> LangOverride \<Rightarrow> LangConfig" where
  "merge_override d ov =
     \<lparr>contextLines = (case ov_contextLines ov of None \<Rightarrow> contextLines d | Some n \<Rightarrow> n),
      fileImportance = (case ov_fileImportance ov of None \<Rightarrow> fileImportance d | Some n \<Rightarrow> n),
      importantSections = (case ov_importantSections ov of
                             None \<Rightarrow> importantSections d
                           | Some n \<Rightarrow> replicate n NotRegExp)\<rparr>"

text \<open>
  \<^verbatim>\<open>this.languageConfig[lang] = c\<close>. For \<^verbatim>\<open>__proto__\<close> the assignment runs the setter that
  \<^verbatim>\<open>Object.prototype\<close> defines for that name: \<open>c\<close> becomes the prototype.
\<close>

definition set_language :: "string \<Rightarrow> LangConfig \<Rightarrow> LanguageTable \<Rightarrow> LanguageTable" where
  "set_language lang c t =
     (if lang = ''default'' then t\<lparr>default_config := c\<rparr>
      else if lang = ''__proto__'' then t\<lparr>prototype := Some c\<rparr>
      else t\<lparr>by_language := (by_language t)(lang \<mapsto> c)\<rparr>)"

text \<open>
  \<^verbatim>\<open>loadConfiguration\<close>, given the two settings it reads (\<open>None\<close>: not set).
\<close>

definition loadConfiguration ::
  "bool option \<Rightarrow> (string \<times> LangOverride) list option \<Rightarrow> Provider \<Rightarrow> Provider" where
  "loadConfiguration enabledSetting customLanguageSettings s =
     (let s1 = s\<lparr>enabled := (case enabledSetting of None \<Rightarrow> True | Some b \<Rightarrow> b)\<rparr>
      in case customLanguageSettings of
           None \<Rightarrow> s1
         | Some custom \<Rightarrow>
             s1\<lparr>languageConfig :=
                  foldl (\<lambda>t (lang, ov). set_language lang (merge_override (default_config t) ov) t)
                        (languageConfig s1) custom\<rparr>)"

text \<open>The constructor.\<close>

definition new_provider ::
  "bool option \<Rightarrow> (string \<times> LangOverride) list option \<Rightarrow> Provider" where
  "new_provider enabledSetting customLanguageSettings =
     loadConfiguration enabledSetting customLanguageSettings
       \<lparr>enabled = (case enabledSetting of None \<Rightarrow> True | Some b \<Rightarrow> b),
        debounceTimeout = None,
        lastCompletionTime = 0,
        pendingCompletions = Map.empty,
        completionCache = Map.empty,
        languageConfig = builtin_languageConfig,
        timers = [],
        nextTimer = 0,
        awaiting = [],
        issued = [],
        settled = Map.empty,
        nextPromise = 0\<rparr>"

definition setEnabled :: "bool \<Rightarrow> Provider \<Rightarrow> Provider" where
  "setEnabled b s = s\<lparr>enabled := b\<rparr>"

text \<open>The cache key \<^verbatim>\<open>`${document.uri.toString()}|${position.line}:${position.character}`\<close>.\<close>

definition cache_key :: "TextDocument \<Rightarrow> Position \<Rightarrow> string" where
  "cache_key document position =
     uri document @ ''|'' @ show_nat (line position) @ '':'' @ show_nat (character position)"

text \<open>\<^verbatim>\<open>resolve(v)\<close>: it settles a promise that is not settled, and does nothing otherwise.\<close>

definition resolve :: "nat \<Rightarrow> InlineCompletionItem list \<Rightarrow> Provider \<Rightarrow> Provider" where
  "resolve p v s = (case settled s p of None \<Rightarrow> s\<lparr>settled := (settled s)(p \<mapsto> v)\<rparr> | Some _ \<Rightarrow> s)"

text \<open>\<^verbatim>\<open>this.pendingCompletions.delete(key)\<close>\<close>

definition delete_pending :: "string \<Rightarrow> Provider \<Rightarrow> Provider" where
  "delete_pending k s = s\<lparr>pendingCompletions := (pendingCompletions s)(k := None)\<rparr>"

text \<open>\<^verbatim>\<open>clearTimeout(t)\<close>\<close>

definition clearTimeout :: "nat \<Rightarrow> Provider \<Rightarrow> Provider" where
  "clearTimeout t s = s\<lparr>timers := filter (\<lambda>(t', cb). t' \<noteq> t) (timers s)\<rparr>"

text \<open>
  What a call of \<^verbatim>\<open>provideInlineCompletionItems\<close> gives its caller: a rejection, a list at
  once, or a promise that settles as the numbered pending promise does.
\<close>

datatype outcome = Throws | Returns "InlineCompletionItem list" | Follows nat

text \<open>
  \<^verbatim>\<open>provideInlineCompletionItems\<close> up to its \<^verbatim>\<open>return\<close>, at clock reading \<open>now\<close> and with
  the \<^verbatim>\<open>completionDelay\<close> setting \<open>delay\<close> (\<open>None\<close>: not set, 300 is used).
\<close>

definition provideInlineCompletionItems ::
  "Provider \<Rightarrow> TextDocument \<Rightarrow> Position \<Rightarrow> InlineCompletionContext \<Rightarrow> int \<Rightarrow> int option
     \<Rightarrow> outcome \<times> Provider" where
  "provideInlineCompletionItems s document position context now delaySetting =
     (if \<not> enabled s then (Returns [], s)
      else
        (case shouldSkipCompletion document position context of
           None \<Rightarrow> (Throws, s)
         | Some True \<Rightarrow> (Returns [], s)
         | Some False \<Rightarrow>
             (let key = cache_key document position;
                  fresh = (case completionCache s key of
                             None \<Rightarrow> None
                           | Some (expiresAt, items) \<Rightarrow>
                               if expiresAt > now then Some items else None)
              in case fresh of
                   Some items \<Rightarrow> (Returns items, s)
                 | None \<Rightarrow>
                     (case pendingCompletions s key of
                        Some p \<Rightarrow> (Follows p, s)
                      | None \<Rightarrow>
                          (let delay = (case delaySetting of None \<Rightarrow> 300 | Some d \<Rightarrow> d);
                               s1 = (case debounceTimeout s of
                                       None \<Rightarrow> s
                                     | Some t \<Rightarrow> clearTimeout t s);
                               p = nextPromise s1;
                               t = nextTimer s1;
                               cb = \<lparr>cb_key = key, cb_position = position, cb_promise = p,
                                     cb_delay = delay\<rparr>
                           in (Follows p,
                               s1\<lparr>debounceTimeout := Some t,
                                  timers := timers s1 @ [(t, cb)],
                                  nextTimer := Suc t,
                                  nextPromise := Suc p,
                                  pendingCompletions := (pendingCompletions s1)(key \<mapsto> p)\<rparr>))))))"

definition completion_system_prompt :: "string \<Rightarrow> string" where
  "completion_system_prompt language =
     ''You are an AI programming assistant for '' @ language
     @ ''. Continue the code after the cursor, closing brackets and respecting indentation. Return only the code completion.''"

text \<open>\<^verbatim>\<open>resolve({ items: [] })\<close> followed by the removal of the key, on every path that gives up.\<close>

definition give_up :: "Callback \<Rightarrow> Provider \<Rightarrow> Provider" where
  "give_up cb s = delete_pending (cb_key cb) (resolve (cb_promise cb) [] s)"

text \<open>
  The timer's closure, from its start to the call of \<^verbatim>\<open>callModel\<close> or to its end: at clock
  reading \<open>now\<close>, with the document as it is then, the token's \<^verbatim>\<open>isCancellationRequested\<close> and
  the \<^verbatim>\<open>defaultModel\<close> setting.
\<close>

definition timer_callback ::
  "Callback \<Rightarrow> int \<Rightarrow> TextDocument \<Rightarrow> bool \<Rightarrow> string option \<Rightarrow> Provider \<Rightarrow> Provider" where
  "timer_callback cb now document cancelled modelSetting s =
     (if now - lastCompletionTime s < 1000 then give_up cb s
      else
        (let s1 = s\<lparr>lastCompletionTime := now\<rparr>;
             model = (case modelSetting of None \<Rightarrow> ''gpt-4'' | Some m \<Rightarrow> m);
             language = languageId document
         in case getSmartCompletionContext (languageConfig s1) document (cb_position cb) language of
              None \<Rightarrow> give_up cb s1
            | Some ctx \<Rightarrow>
                (case currentLine ctx of
                   None \<Rightarrow> give_up cb s1
                 | Some cur \<Rightarrow>
                     if length cur < 10 \<and> length (prefixCode ctx) < 20 then give_up cb s1
                     else if cancelled then give_up cb s1
                     else
                       s1\<lparr>awaiting := awaiting s1 @
                             [(length (issued s1),
                               \<lparr>aw_callback = cb, aw_language = language, aw_currentLine = cur\<rparr>)],
                          issued := issued s1 @
                             [\<lparr>c_model = model, c_prompt = completePrompt ctx,
                               c_options = \<lparr>o_systemPrompt = Some (completion_system_prompt language),
                                            o_maxTokens = Some 150, o_temperature = Some (3 / 10),
                                            o_endpoint = None, o_messages = None\<rparr>\<rparr>]\<rparr>)))"

text \<open>
  The rest of the closure, once \<^verbatim>\<open>callModel\<close> has settled with \<open>result\<close>, at clock reading
  \<open>now\<close>. A text that is truthy and not a string has no \<^verbatim>\<open>trim\<close>: the \<^verbatim>\<open>catch\<close> block runs.
\<close>

definition continuation ::
  "Awaiting \<Rightarrow> int \<Rightarrow> ApiResponse thenable \<Rightarrow> Provider \<Rightarrow> Provider" where
  "continuation aw now result s =
     (let cb = aw_callback aw
      in case result of
           Rejects e \<Rightarrow> give_up cb s
         | Resolves response \<Rightarrow>
             if truthy_str (r_error response) \<or> \<not> js_truthy (r_text response) then give_up cb s
             else
               (case r_text response of
                  JStr t \<Rightarrow>
                    (let text1 = postProcessCompletion (trim t) (aw_language aw) (aw_currentLine aw);
                         list = [\<lparr>insertText = text1,
                                  range = (cb_position cb, cb_position cb)\<rparr>];
                         s1 = s\<lparr>completionCache :=
                                  (completionCache s)(cb_key cb \<mapsto> (now + 30000, list))\<rparr>
                     in delete_pending (cb_key cb) (resolve (cb_promise cb) list s1))
                | _ \<Rightarrow> give_up cb s))"

text \<open>
  What can happen to a provider: a call of \<^verbatim>\<open>provideInlineCompletionItems\<close>, a timer running
  its closure, a call of \<^verbatim>\<open>callModel\<close> settling, \<^verbatim>\<open>setEnabled\<close>, and a change of the
  configuration.
\<close>

datatype event =
    Provide TextDocument Position InlineCompletionContext int "int option"
  | Fire nat int TextDocument bool "string option"
  | Complete nat int "ApiResponse thenable"
  | SetEnabled bool
  | ConfigurationChanged "bool option" "(string \<times> LangOverride) list option"

fun step :: "event \<Rightarrow> Provider \<Rightarrow> Provider" where
  "step (Provide document position context now delaySetting) s =
     snd (provideInlineCompletionItems s document position context now delaySetting)"
| "step (Fire t now document cancelled modelSetting) s =
     (case map_of (timers s) t of
        None \<Rightarrow> s
      | Some cb \<Rightarrow> timer_callback cb now document cancelled modelSetting (clearTimeout t s))"
| "step (Complete c now result) s =
     (case map_of (awaiting s) c of
        None \<Rightarrow> s
      | Some aw \<Rightarrow>
          continuation aw now result (s\<lparr>awaiting := filter (\<lambda>(c', a). c' \<noteq> c) (awaiting s)\<rparr>))"
| "step (SetEnabled b) s = setEnabled b s"
| "step (ConfigurationChanged enabledSetting customLanguageSettings) s =
     loadConfiguration enabledSetting customLanguageSettings s"

definition run :: "event list \<Rightarrow> Provider \<Rightarrow> Provider" where
  "run es s = foldl (\<lambda>s e. step e s) s es"

text \<open>The closures that are scheduled or waiting for \<^verbatim>\<open>callModel\<close>.\<close>

definition active :: "Provider \<Rightarrow> Callback list" where
  "active s = map snd (timers s) @ map (\<lambda>(c, a). aw_callback a) (awaiting s)"


section \<open>Definitions used to state the properties\<close>

text \<open>
  The number of occurrences of a pattern in a text, as the specification counts them: the
  number of positions at which the pattern starts.
\<close>

fun tails :: "'a list \<Rightarrow> 'a list list" where
  "tails [] = [[]]"
| "tails (x # xs) = (x # xs) # tails xs"

definition occurrences :: "string \<Rightarrow> string \<Rightarrow> nat" where
  "occurrences p s = length (filter (starts_with p) (tails s))"

text \<open>The clock reading of an event (\<^verbatim>\<open>Date.now()\<close>), for the events that read the clock.\<close>

fun reading :: "event \<Rightarrow> int list" where
  "reading (Provide document position context now delaySetting) = [now]"
| "reading (Fire t now document cancelled modelSetting) = [now]"
| "reading (Complete c now result) = [now]"
| "reading (SetEnabled b) = []"
| "reading (ConfigurationChanged enabledSetting customLanguageSettings) = []"

definition readings :: "event list \<Rightarrow> int list" where
  "readings es = concat (map reading es)"

subsection \<open>Invariants of the provider\<close>

text \<open>
  For the pending map \<open>P\<close>, the active closures \<open>A\<close> and the next promise number \<open>N\<close>: every
  promise in the map has been created, no promise is stored under two keys, every active
  closure's promise is stored under that closure's key, and no two active closures share a
  promise.
\<close>

definition inv_core :: "(string \<Rightarrow> nat option) \<Rightarrow> Callback list \<Rightarrow> nat \<Rightarrow> bool" where
  "inv_core P A N \<longleftrightarrow>
     (\<forall>k p. P k = Some p \<longrightarrow> p < N)
   \<and> (\<forall>k1 k2 p. P k1 = Some p \<and> P k2 = Some p \<longrightarrow> k1 = k2)
   \<and> (\<forall>cb\<in>set A. P (cb_key cb) = Some (cb_promise cb))
   \<and> distinct (map cb_promise A)"

definition inv :: "Provider \<Rightarrow> bool" where
  "inv s = inv_core (pendingCompletions s) (active s) (nextPromise s)"

text \<open>The promise of an active closure is not settled, and a settled promise has been created.\<close>

definition unsettled :: "Provider \<Rightarrow> bool" where
  "unsettled s \<longleftrightarrow>
     (\<forall>cb\<in>set (active s). settled s (cb_promise cb) = None)
   \<and> (\<forall>p v. settled s p = Some v \<longrightarrow> p < nextPromise s)"



text \<open>
  The cache holds the list \<open>lst\<close> for the key \<open>k\<close> until \<open>expiresAt\<close>, no active closure is for
  \<open>k\<close>, and the promise \<open>p\<close> is settled with \<open>lst\<close>.
\<close>

definition kept :: "string \<Rightarrow> int \<Rightarrow> InlineCompletionItem list \<Rightarrow> nat \<Rightarrow> Provider \<Rightarrow> bool" where
  "kept k expiresAt lst p s \<longleftrightarrow>
     completionCache s k = Some (expiresAt, lst)
   \<and> (\<forall>cb\<in>set (active s). cb_key cb \<noteq> k)
   \<and> settled s p = Some lst"

subsection \<open>Inputs of the examples\<close>

definition ok_json :: json where
  "ok_json = JObj [(''choices'', JArr [JObj [(''message'', JObj [(''content'', JStr ''{ x }'')])]])]"

definition ok_response :: HttpResponse where
  "ok_response = \<lparr>p_ok = True, p_status = 200, p_text = Resolves [], p_json = Resolves ok_json\<rparr>"

definition secrets_set :: "string \<Rightarrow> string option thenable" where
  "secrets_set k = Resolves (Some ''sk-1'')"

definition secrets_locked :: "string \<Rightarrow> string option thenable" where
  "secrets_locked k = Rejects ''secret storage is not available''"

definition fetch_ok :: "HttpRequest \<Rightarrow> HttpResponse thenable" where
  "fetch_ok req = Resolves ok_response"

definition env_ok :: ClientEnv where
  "env_ok = \<lparr>secrets = secrets_set, customModelEndpoint = None, cfg_maxTokens = None,
             cfg_temperature = None, fetch = fetch_ok\<rparr>"

definition env_locked :: ClientEnv where
  "env_locked = \<lparr>secrets = secrets_locked, customModelEndpoint = None, cfg_maxTokens = None,
                 cfg_temperature = None, fetch = fetch_ok\<rparr>"

definition no_options :: CallOptions where
  "no_options = \<lparr>o_systemPrompt = None, o_maxTokens = None, o_temperature = None,
                 o_endpoint = None, o_messages = None\<rparr>"

definition zero_options :: CallOptions where
  "zero_options = \<lparr>o_systemPrompt = None, o_maxTokens = Some 0, o_temperature = Some 0,
                   o_endpoint = None, o_messages = None\<rparr>"

definition chat_env0 :: ChatEnv where
  "chat_env0 = \<lparr>defaultModel = None, activeTextEditor = None\<rparr>"

definition chat_env_claude :: ChatEnv where
  "chat_env_claude = \<lparr>defaultModel = Some ''claude-3-opus'', activeTextEditor = None\<rparr>"

definition chat_used :: ChatViewProvider where
  "chat_used = \<lparr>view = True,
                chatHistory = [\<lparr>role = ''user'', content = JStr ''old question''\<rparr>,
                               \<lparr>role = ''assistant'', content = JStr ''old answer''\<rparr>]\<rparr>"

definition fenced_text :: string where
  "fenced_text = fence @ ''ts'' @ [newline] @ ''foo()'' @ [newline] @ fence"

definition comment_document :: TextDocument where
  "comment_document =
     \<lparr>uri = ''file:///a.ts'', fileName = ''/a.ts'', languageId = ''typescript'',
      lines = [''import x'', ''/* a note */ let y = 1; /* open'', ''  still open here''],
      eol = [newline]\<rparr>"

definition comment_position :: Position where
  "comment_position = \<lparr>line = 2, character = 8\<rparr>"

definition no_menu :: InlineCompletionContext where
  "no_menu = \<lparr>selectedCompletionInfo = False\<rparr>"

definition doc0 :: TextDocument where
  "doc0 = \<lparr>uri = ''file:///a.ts'', fileName = ''/a.ts'', languageId = ''typescript'',
           lines = [''import x'', ''class Foo {'', ''  bar(): number {'',
                    ''    return this.baz(1, 2'', ''''],
           eol = [newline]\<rparr>"

definition pos_a :: Position where
  "pos_a = \<lparr>line = 1, character = 11\<rparr>"

definition pos_b :: Position where
  "pos_b = \<lparr>line = 2, character = 17\<rparr>"

definition ok_api_response :: ApiResponse where
  "ok_api_response = \<lparr>r_text = JStr ''{ x }'', r_model = ''gpt-4'', r_error = None\<rparr>"

definition ok_result :: "ApiResponse thenable" where
  "ok_result = Resolves ok_api_response"

definition provider0 :: Provider where
  "provider0 = new_provider None None"

text \<open>A request whose timer has run and whose call is in flight.\<close>

definition calling :: "event list" where
  "calling = [Provide doc0 pos_a no_menu 10000 None, Fire 0 10300 doc0 False None]"

definition aw0 :: Awaiting where
  "aw0 = \<lparr>aw_callback = \<lparr>cb_key = ''file:///a.ts|1:11'', cb_position = pos_a, cb_promise = 0,
                          cb_delay = 300\<rparr>,
          aw_language = ''typescript'', aw_currentLine = ''class Foo {''\<rparr>"

text \<open>What happens between the completion of that call and a second request for its key.\<close>

definition cached :: "event list" where
  "cached = [Provide doc0 pos_b no_menu 10500 None, SetEnabled True, Fire 1 10900 doc0 False None]"

text \<open>
  A call that starts at 10300 and completes at 12000; then a request for another position at
  12100, whose timer runs at 12400.
\<close>

definition rate_before :: "event list" where
  "rate_before = [Provide doc0 pos_a no_menu 10000 None, Fire 0 10300 doc0 False None,
                  Complete 0 12000 ok_result]"

definition rate_after :: "event list" where
  "rate_after = rate_before @ [Provide doc0 pos_b no_menu 12100 None, Fire 1 12400 doc0 False None]"

text \<open>A call that starts at 10300, and a request at 10400 whose timer runs at 10700.\<close>

definition limited :: "event list" where
  "limited = [Provide doc0 pos_a no_menu 10000 None, Fire 0 10300 doc0 False None,
              Provide doc0 pos_b no_menu 10400 None]"

definition cb1 :: Callback where
  "cb1 = \<lparr>cb_key = ''file:///a.ts|2:17'', cb_position = pos_b, cb_promise = 1, cb_delay = 300\<rparr>"

definition first_request :: "event list" where
  "first_request = [Provide doc0 pos_a no_menu 10000 None]"

section \<open>Post-processing: properties\<close>

lemma strip_fences_no_backtick: "CHR 0x60 \<notin> set t \<Longrightarrow> strip_fences t = t"
  by (induction t) (auto simp: starts_with_def fence_def)

text \<open>Every line after the first is prefixed with the indentation of the current line.\<close>

lemma indent_rest: "map (\<lambda>(i, ln). if i = 0 then ln else indent @ ln) (enumerate (Suc n) lns)
                      = map ((@) indent) lns"
  by (induction lns arbitrary: n) simp_all

lemma indent_lines_Cons: "indent_lines indent (l # lns) = l # map ((@) indent) lns"
  by (simp add: indent_lines_def indent_rest)

text \<open>
  The example of the specification: for the current line \<^verbatim>\<open>"  foo("\<close> and the model text
  \<^verbatim>\<open>"(bar)"\<close> the duplicated bracket is removed.
\<close>

lemma postProcessCompletion_duplicate_bracket:
  "postProcessCompletion ''(bar)'' ''typescript'' ''  foo('' = ''bar)''"
  by code_simp

text \<open>
  A text that is a fenced block, whatever is between the fences, is reduced to the empty
  string, for every language and every current line.
\<close>

lemma after_fence_body:
  "CHR 0x60 \<notin> set body \<Longrightarrow> after_fence (body @ fence @ rest) = Some rest"
  by (induction body) (auto simp: starts_with_def fence_def)

lemma strip_fences_fenced:
  assumes "CHR 0x60 \<notin> set body"
  shows "strip_fences (fence @ body @ fence) = []"
proof -
  have "after_fence (body @ fence @ []) = Some []" using assms by (rule after_fence_body)
  then show ?thesis by (simp add: fence_def starts_with_def)
qed

lemma postProcessCompletion_fenced:
  assumes "CHR 0x60 \<notin> set body"
  shows "postProcessCompletion (fence @ body @ fence) language line0 = []"
  using strip_fences_fenced [OF assms]
  by (simp add: postProcessCompletion_def trim_def starts_with_open_def)

text \<open>
  Claim C6, the part on code fences: post-processing is to strip the Markdown fence that wraps
  the model's text. Evaluated on a fenced completion, the function returns the empty string:
  the regular expression deletes the fences together with the code between them.
\<close>

theorem postProcessCompletion_deletes_fenced_code:
  "postProcessCompletion fenced_text ''typescript'' ''  x'' = []"
  by code_simp

section \<open>The API client: properties\<close>

lemma or_num_nonzero: "b \<noteq> 0 \<Longrightarrow> or_num a b \<noteq> 0"
  by (auto simp: or_num_def split: option.splits)

text \<open>
  Claim C10: a temperature of 0 or a \<^verbatim>\<open>maxTokens\<close> of 0 passed in the options is ignored, since
  the defaulting uses \<^verbatim>\<open>||\<close>: the request carries the configured value, or 0.7 (respectively
  1024) when that is unset or 0 as well; so the temperature of a request is never 0, whatever
  the options are.
\<close>

theorem callModel_ignores_zero_options:
  "q_temperature (build_request env m apiKey prompt (options\<lparr>o_temperature := Some 0\<rparr>))
     = or_num (cfg_temperature env) (7 / 10)
   \<and> q_maxTokens (build_request env m apiKey prompt (options\<lparr>o_maxTokens := Some 0\<rparr>))
     = or_num (cfg_maxTokens env) 1024
   \<and> q_temperature (build_request env m apiKey prompt options) \<noteq> 0
   \<and> q_maxTokens (build_request env m apiKey prompt options) \<noteq> 0"
  by (simp add: build_request_def Let_def or_num_nonzero) (simp add: or_num_def)

text \<open>On the wire: the request \<^verbatim>\<open>callModel\<close> sends for \<^verbatim>\<open>gpt-4\<close> when both options are 0.\<close>

lemma callModel_zero_options_on_the_wire:
  "map h_body (snd (callModel env_ok ''gpt-4'' ''p'' zero_options)) =
     [JObj [(''model'', JStr ''gpt-4''),
            (''messages'', JArr [JObj [(''role'', JStr ''user''), (''content'', JStr ''p'')]]),
            (''max_tokens'', JNum 1024), (''temperature'', JNum (7 / 10))]]"
  by code_simp

lemma and_then_Resolves:
  "and_then x f = Resolves r \<longleftrightarrow> (\<exists>y. x = Resolves y \<and> f y = Resolves r)"
  by (cases x) auto

lemma read_response_ok:
  assumes "read_response vendor decode response = Resolves r"
  shows "p_ok response \<and> (\<exists>data. p_json response = Resolves data)"
  using assms by (auto simp: read_response_def and_then_Resolves split: if_splits)

lemma fetched_ok:
  assumes "and_then (fetch env req) (read_response vendor decode) = Resolves r"
  shows "\<exists>response data. fetch env req = Resolves response \<and> p_ok response
           \<and> p_json response = Resolves data"
  using assms read_response_ok by (fastforce simp: and_then_Resolves)

lemma callOpenAI_ok:
  assumes "callOpenAI env request m = (Resolves r, sent)"
  shows "\<exists>req response data. sent = [req] \<and> fetch env req = Resolves response \<and> p_ok response
           \<and> p_json response = Resolves data"
  using assms unfolding callOpenAI_def Let_def by (auto dest: fetched_ok)

lemma callAnthropic_ok:
  assumes "callAnthropic env request m = (Resolves r, sent)"
  shows "\<exists>req response data. sent = [req] \<and> fetch env req = Resolves response \<and> p_ok response
           \<and> p_json response = Resolves data"
  using assms unfolding callAnthropic_def Let_def by (auto dest: fetched_ok)

lemma callGoogle_ok:
  assumes "callGoogle env request m = (Resolves r, sent)"
  shows "\<exists>req response data. sent = [req] \<and> fetch env req = Resolves response \<and> p_ok response
           \<and> p_json response = Resolves data"
  using assms unfolding callGoogle_def Let_def by (auto dest: fetched_ok)

lemma callCustomModel_ok:
  assumes "callCustomModel env request m = (Resolves r, sent)"
  shows "\<exists>req response data. sent = [req] \<and> fetch env req = Resolves response \<and> p_ok response
           \<and> p_json response = Resolves data"
  using assms unfolding callCustomModel_def Let_def by (auto dest: fetched_ok split: if_splits)

lemma callModel_unknown:
  "getModelById modelId = None \<Longrightarrow>
     callModel env modelId prompt options =
       (Resolves \<lparr>r_text = JStr ''Error: Invalid model ID'', r_model = modelId,
                  r_error = Some ''Invalid model ID''\<rparr>, [])"
  by (simp add: callModel_def)

lemma callModel_rejects_iff:
  "fst (callModel env modelId prompt options) = Rejects e \<longleftrightarrow>
     (\<exists>m. getModelById modelId = Some m \<and> secrets env (m_secretKeyName m) = Rejects e)"
  by (auto simp: callModel_def Let_def split: option.splits thenable.splits prod.splits if_splits)

text \<open>
  A result without an error comes from exactly one request, answered with an ok status and a
  body that parsed: every other path sets the error.
\<close>

lemma callModel_no_error:
  assumes "fst (callModel env modelId prompt options) = Resolves r" "r_error r = None"
  shows "\<exists>req response data. snd (callModel env modelId prompt options) = [req]
           \<and> fetch env req = Resolves response \<and> p_ok response \<and> p_json response = Resolves data"
proof (cases "getModelById modelId")
  case None
  then show ?thesis using assms by (auto simp: callModel_def)
next
  case (Some m)
  show ?thesis
  proof (cases "secrets env (m_secretKeyName m)")
    case (Rejects e)
    then show ?thesis using assms Some by (auto simp: callModel_def)
  next
    case (Resolves apiKey)
    show ?thesis
    proof (cases "truthy_str apiKey")
      case False
      then show ?thesis using assms Some Resolves by (auto simp: callModel_def)
    next
      case True
      define request where "request = build_request env m (the apiKey) prompt options"
      consider (o) "m_provider m = ''OpenAI''" | (a) "m_provider m = ''Anthropic''"
        | (g) "m_provider m = ''Google''" | (c) "m_provider m = ''Custom''"
        | (u) "m_provider m \<noteq> ''OpenAI''" "m_provider m \<noteq> ''Anthropic''"
              "m_provider m \<noteq> ''Google''" "m_provider m \<noteq> ''Custom''"
        by blast
      then show ?thesis
      proof cases
        case o
        obtain res sent where d: "callOpenAI env request m = (res, sent)" by fastforce
        then have cm: "callModel env modelId prompt options =
            (case res of Resolves r \<Rightarrow> (Resolves r, sent)
             | Rejects e \<Rightarrow> (Resolves \<lparr>r_text = JStr (''Error: '' @ e), r_model = m_id m,
                                      r_error = Some e\<rparr>, sent))"
          using Some Resolves True o by (simp add: callModel_def request_def)
        with assms have "res = Resolves r" by (cases res) auto
        with d cm callOpenAI_ok show ?thesis by fastforce
      next
        case a
        obtain res sent where d: "callAnthropic env request m = (res, sent)" by fastforce
        then have cm: "callModel env modelId prompt options =
            (case res of Resolves r \<Rightarrow> (Resolves r, sent)
             | Rejects e \<Rightarrow> (Resolves \<lparr>r_text = JStr (''Error: '' @ e), r_model = m_id m,
                                      r_error = Some e\<rparr>, sent))"
          using Some Resolves True a by (simp add: callModel_def request_def)
        with assms have "res = Resolves r" by (cases res) auto
        with d cm callAnthropic_ok show ?thesis by fastforce
      next
        case g
        obtain res sent where d: "callGoogle env request m = (res, sent)" by fastforce
        then have cm: "callModel env modelId prompt options =
            (case res of Resolves r \<Rightarrow> (Resolves r, sent)
             | Rejects e \<Rightarrow> (Resolves \<lparr>r_text = JStr (''Error: '' @ e), r_model = m_id m,
                                      r_error = Some e\<rparr>, sent))"
          using Some Resolves True g by (simp add: callModel_def request_def)
        with assms have "res = Resolves r" by (cases res) auto
        with d cm callGoogle_ok show ?thesis by fastforce
      next
        case c
        obtain res sent where d: "callCustomModel env request m = (res, sent)" by fastforce
        then have cm: "callModel env modelId prompt options =
            (case res of Resolves r \<Rightarrow> (Resolves r, sent)
             | Rejects e \<Rightarrow> (Resolves \<lparr>r_text = JStr (''Error: '' @ e), r_model = m_id m,
                                      r_error = Some e\<rparr>, sent))"
          using Some Resolves True c by (simp add: callModel_def request_def)
        with assms have "res = Resolves r" by (cases res) auto
        with d cm callCustomModel_ok show ?thesis by fastforce
      next
        case u
        then show ?thesis using assms Some Resolves True by (auto simp: callModel_def)
      qed
    qed
  qed
qed

text \<open>
  Claim C4: \<^verbatim>\<open>callModel\<close> is never to throw, every failure resolving to a result with the error
  set. Evaluated with a secret storage that rejects the read of the key, the promise of
  \<^verbatim>\<open>callModel\<close> is rejected with the storage's error: the secret is read before the \<^verbatim>\<open>try\<close>
  block.
\<close>

theorem callModel_rejects_when_secret_read_rejects:
  "fst (callModel env_locked ''gpt-4'' ''p'' no_options) = Rejects ''secret storage is not available''"
  by code_simp

text \<open>
  What holds of \<^verbatim>\<open>callModel\<close>: with a model id that is not in the table it resolves to a result
  whose error is \<^verbatim>\<open>Invalid model ID\<close> and sends no request; its promise is rejected exactly
  when the id is in the table and the read of that model's secret is rejected; and a result
  without an error comes from one request whose response had an ok status and a body that
  parsed, so every other failure (no key, an unsupported provider, an exception of \<^verbatim>\<open>fetch\<close>,
  a status that is not ok, a body that does not parse or decode) resolves to a result with the
  error set.
\<close>

theorem callModel_failures:
  "(getModelById modelId = None \<longrightarrow>
      callModel env modelId prompt options =
        (Resolves \<lparr>r_text = JStr ''Error: Invalid model ID'', r_model = modelId,
                   r_error = Some ''Invalid model ID''\<rparr>, []))
   \<and> (fst (callModel env modelId prompt options) = Rejects e \<longleftrightarrow>
        (\<exists>m. getModelById modelId = Some m \<and> secrets env (m_secretKeyName m) = Rejects e))
   \<and> (fst (callModel env modelId prompt options) = Resolves r \<and> r_error r = None \<longrightarrow>
        (\<exists>req response data. snd (callModel env modelId prompt options) = [req]
           \<and> fetch env req = Resolves response \<and> p_ok response
           \<and> p_json response = Resolves data))"
  using callModel_unknown callModel_rejects_iff callModel_no_error by blast

theorem callModel_failures_witness:
  "getModelById ''no-such-model'' = None
   \<and> callModel env_locked ''no-such-model'' ''p'' no_options =
        (Resolves \<lparr>r_text = JStr ''Error: Invalid model ID'', r_model = ''no-such-model'',
                   r_error = Some ''Invalid model ID''\<rparr>, [])
   \<and> fst (callModel env_ok ''gpt-4'' ''p'' no_options) =
        Resolves \<lparr>r_text = JStr ''{ x }'', r_model = ''gpt-4'', r_error = None\<rparr>
   \<and> (\<exists>req response data. snd (callModel env_ok ''gpt-4'' ''p'' no_options) = [req]
           \<and> fetch env_ok req = Resolves response \<and> p_ok response
           \<and> p_json response = Resolves data)"
proof -
  have h1: "getModelById ''no-such-model'' = None"
    by code_simp
  have h2: "fst (callModel env_ok ''gpt-4'' ''p'' no_options) =
        Resolves \<lparr>r_text = JStr ''{ x }'', r_model = ''gpt-4'', r_error = None\<rparr>"
    by code_simp
  have h3: "r_error \<lparr>r_text = JStr ''{ x }'', r_model = ''gpt-4'', r_error = None\<rparr> = None"
    by simp
  show ?thesis
    using callModel_failures [of "''no-such-model''" env_locked "''p''" no_options]
      callModel_failures [of "''gpt-4''" env_ok "''p''" no_options _
        "\<lparr>r_text = JStr ''{ x }'', r_model = ''gpt-4'', r_error = None\<rparr>"]
      h1 h2 h3
    by blast
qed

section \<open>The chat view: properties\<close>

lemma clearHistory_empty: "chatHistory (clearHistory c) = []"
  by (simp add: clearHistory_def clearChat_def)

text \<open>
  With an Anthropic model the first request after a clear carries the system prompt, in the
  \<^verbatim>\<open>system\<close> property.
\<close>

lemma chat_request_after_clear_anthropic:
  "map h_body (snd (sendMessage env_ok chat_env_claude (clearHistory chat_used) ''hello'')) =
     [JObj [(''model'', JStr ''claude-3-opus''),
            (''messages'', JArr [JObj [(''role'', JStr ''user''), (''content'', JStr ''hello'')]]),
            (''system'', JStr chat_system_prompt),
            (''max_tokens'', JNum 1000)]]"
  by code_simp

text \<open>
  With the model \<^verbatim>\<open>gpt-4\<close> and a stored key, the first request after a clear holds the
  user's message and nothing else, for every message and every workspace context.
\<close>

lemma getModelById_gpt4:
  "getModelById ''gpt-4'' =
     Some \<lparr>m_name = ''GPT-4'', m_id = ''gpt-4'', m_provider = ''OpenAI'', m_maxTokens = 4000,
       m_description = ''OpenAI GPT-4 - Advanced reasoning capabilities'',
       m_secretKeyName = ''openaiApiKey'',
       m_defaultEndpoint = ''https://api.openai.com/v1/chat/completions''\<rparr>"
  by code_simp

lemma callModel_gpt4_sent:
  assumes "secrets env ''openaiApiKey'' = Resolves (Some k)" "k \<noteq> []"
    "o_messages options = Some ms"
  shows "map h_body (snd (callModel env ''gpt-4'' prompt options)) =
     [JObj [(''model'', JStr ''gpt-4''),
            (''messages'', messages_json ms),
            (''max_tokens'', JNum (or_num (o_maxTokens options) (or_num (cfg_maxTokens env) 1024))),
            (''temperature'',
               JNum (or_num (o_temperature options) (or_num (cfg_temperature env) (7 / 10))))]]"
  using assms
  by (auto simp: callModel_def getModelById_gpt4 truthy_str_def callOpenAI_def build_request_def
      Let_def split: thenable.splits)

lemma chat_first_request_openai:
  assumes "view c" "defaultModel cenv = None \<or> defaultModel cenv = Some ''gpt-4''"
    "secrets env ''openaiApiKey'' = Resolves (Some k)" "k \<noteq> []"
  shows "map h_body (snd (sendMessage env cenv (clearHistory c) message)) =
     [JObj [(''model'', JStr ''gpt-4''),
            (''messages'', JArr [JObj [(''role'', JStr ''user''), (''content'', JStr message)]]),
            (''max_tokens'', JNum 1000),
            (''temperature'', JNum (or_num (cfg_temperature env) (7 / 10)))]]"
proof -
  have m: "or_str (defaultModel cenv) ''gpt-4'' = ''gpt-4''"
    using assms(2) by (auto simp: or_str_def truthy_str_def)
  obtain options where o: "chat_call cenv [\<lparr>role = ''user'', content = JStr message\<rparr>]
      = (''gpt-4'', options)"
    and om: "o_messages options = Some [\<lparr>role = ''user'', content = JStr message\<rparr>]"
    and ot: "o_maxTokens options = Some 1000" "o_temperature options = None"
    by (simp add: chat_call_def Let_def m)
  have s: "snd (sendMessage env cenv (clearHistory c) message)
            = snd (callModel env ''gpt-4'' message options)"
    using assms(1) by (simp add: sendMessage_def clearHistory_def clearChat_def o Let_def
        split: prod.splits)
  show ?thesis
    unfolding s callModel_gpt4_sent [OF assms(3,4) om]
    by (simp add: ot or_num_def messages_json_def)
qed

text \<open>
  Claim C9: clearing the chat empties the history, and the first message after it is to be
  sent with the system prompt. With the default model \<^verbatim>\<open>gpt-4\<close> the history is empty after the
  clear, and the request that is sent holds the user's message only: \<^verbatim>\<open>callOpenAI\<close> takes the
  messages it is given and drops the system prompt.
\<close>

theorem chat_request_after_clear_has_no_system_prompt:
  "chatHistory (clearHistory chat_used) = []
   \<and> map h_body (snd (sendMessage env_ok chat_env0 (clearHistory chat_used) ''hello'')) =
       [JObj [(''model'', JStr ''gpt-4''),
              (''messages'', JArr [JObj [(''role'', JStr ''user''), (''content'', JStr ''hello'')]]),
              (''max_tokens'', JNum 1000), (''temperature'', JNum (7 / 10))]]"
  by code_simp

section \<open>Skip conditions: properties\<close>

lemma count_pair_occurrences: "a \<noteq> b \<Longrightarrow> count_pair a b s = occurrences [a, b] s"
  by (induction a b s rule: count_pair.induct) (auto simp: occurrences_def starts_with_def)

lemma isInComment_iff:
  "isInComment document position \<longleftrightarrow>
     occurrences ''/*'' (getText_upto document position)
       > occurrences ''*/'' (getText_upto document position)"
  by (simp add: isInComment_def Let_def count_pair_occurrences)

lemma skip_in_comment:
  assumes "isInComment document position" "line position < length (lines document)"
  shows "shouldSkipCompletion document position context = Some True"
  using assms by (simp add: shouldSkipCompletion_def lineAt_def)

text \<open>
  Claim C7: when the text from the start of the document to the cursor holds more \<^verbatim>\<open>/*\<close> than
  \<^verbatim>\<open>*/\<close>, \<^verbatim>\<open>isInComment\<close> is true and the request is suppressed: the provider returns the
  empty list at once and its state is unchanged, so no timer is scheduled and no call is made.
  The cursor is on a line of the document.
\<close>

theorem comment_suppresses_completion:
  assumes "occurrences ''/*'' (getText_upto document position)
             > occurrences ''*/'' (getText_upto document position)"
      and "line position < length (lines document)"
  shows "isInComment document position \<and>
         provideInlineCompletionItems s document position context now delaySetting = (Returns [], s)"
proof -
  have c: "isInComment document position" using assms(1) by (simp add: isInComment_iff)
  have "shouldSkipCompletion document position context = Some True"
    using c assms(2) by (rule skip_in_comment)
  then show ?thesis using c by (simp add: provideInlineCompletionItems_def)
qed

theorem comment_suppresses_completion_witness:
  "occurrences ''/*'' (getText_upto comment_document comment_position)
     > occurrences ''*/'' (getText_upto comment_document comment_position)
   \<and> line comment_position < length (lines comment_document)
   \<and> isInComment comment_document comment_position
   \<and> provideInlineCompletionItems (new_provider None None) comment_document comment_position
        no_menu 5000 None = (Returns [], new_provider None None)"
proof -
  have h1: "occurrences ''/*'' (getText_upto comment_document comment_position)
     > occurrences ''*/'' (getText_upto comment_document comment_position)"
    by code_simp
  have h2: "line comment_position < length (lines comment_document)"
    by code_simp
  show ?thesis
    using comment_suppresses_completion [OF h1 h2] h1 h2 by simp
qed

section \<open>The completion provider: properties\<close>

subsection \<open>The pending map and the active closures\<close>

lemma inv_core_bound: "inv_core P A N \<Longrightarrow> P k = Some p \<Longrightarrow> p < N"
  unfolding inv_core_def by blast

lemma inv_core_inj: "inv_core P A N \<Longrightarrow> P k1 = Some p \<Longrightarrow> P k2 = Some p \<Longrightarrow> k1 = k2"
  unfolding inv_core_def by blast

lemma inv_core_pending: "inv_core P A N \<Longrightarrow> cb \<in> set A \<Longrightarrow> P (cb_key cb) = Some (cb_promise cb)"
  unfolding inv_core_def by blast

lemma inv_core_distinct: "inv_core P A N \<Longrightarrow> distinct (map cb_promise A)"
  unfolding inv_core_def by blast

lemma inv_coreI:
  assumes "\<And>k p. P k = Some p \<Longrightarrow> p < N"
    "\<And>k1 k2 p. P k1 = Some p \<Longrightarrow> P k2 = Some p \<Longrightarrow> k1 = k2"
    "\<And>cb. cb \<in> set A \<Longrightarrow> P (cb_key cb) = Some (cb_promise cb)"
    "distinct (map cb_promise A)"
  shows "inv_core P A N"
  unfolding inv_core_def using assms by blast

lemma inv_core_same_key:
  assumes "inv_core P A N" "cb \<in> set A" "cb' \<in> set A" "cb_key cb = cb_key cb'"
  shows "cb = cb'"
proof -
  have "P (cb_key cb) = Some (cb_promise cb)"
    using assms(1,2) by (rule inv_core_pending)
  moreover have "P (cb_key cb') = Some (cb_promise cb')"
    using assms(1,3) by (rule inv_core_pending)
  ultimately have "cb_promise cb = cb_promise cb'" using assms(4) by simp
  moreover have "inj_on cb_promise (set A)"
    using inv_core_distinct [OF assms(1)] by (simp add: distinct_map)
  ultimately show ?thesis using assms(2,3) by (auto dest: inj_onD)
qed

lemma inv_core_subset:
  assumes "inv_core P A N" "set A' \<subseteq> set A" "distinct (map cb_promise A')"
  shows "inv_core P A' N"
proof (rule inv_coreI)
  show "\<And>k p. P k = Some p \<Longrightarrow> p < N" using assms(1) by (rule inv_core_bound)
  show "\<And>k1 k2 p. P k1 = Some p \<Longrightarrow> P k2 = Some p \<Longrightarrow> k1 = k2" using assms(1) by (rule inv_core_inj)
  show "\<And>cb. cb \<in> set A' \<Longrightarrow> P (cb_key cb) = Some (cb_promise cb)"
    using assms(1,2) by (auto intro: inv_core_pending)
  show "distinct (map cb_promise A')" by fact
qed

lemma inv_core_remove:
  assumes "inv_core P A N" "cb \<in> set A" "set A' \<subseteq> set A - {cb}" "distinct (map cb_promise A')"
  shows "inv_core (P(cb_key cb := None)) A' N"
proof (rule inv_coreI)
  fix k p assume "(P(cb_key cb := None)) k = Some p"
  then have "P k = Some p" by (simp split: if_splits)
  then show "p < N" using assms(1) by (rule inv_core_bound [rotated])
next
  fix k1 k2 p assume "(P(cb_key cb := None)) k1 = Some p" "(P(cb_key cb := None)) k2 = Some p"
  then have "P k1 = Some p" "P k2 = Some p" by (simp_all split: if_splits)
  then show "k1 = k2" using assms(1) by (rule inv_core_inj [rotated])
next
  fix cb' assume a: "cb' \<in> set A'"
  then have b: "cb' \<in> set A" "cb' \<noteq> cb" using assms(3) by auto
  then have "cb_key cb' \<noteq> cb_key cb"
    using inv_core_same_key [OF assms(1) assms(2), of cb'] by auto
  moreover have "P (cb_key cb') = Some (cb_promise cb')"
    using assms(1) b(1) by (rule inv_core_pending)
  ultimately show "(P(cb_key cb := None)) (cb_key cb') = Some (cb_promise cb')" by simp
next
  show "distinct (map cb_promise A')" by fact
qed

lemma inv_core_add:
  assumes "inv_core P A N" "P k = None" "set A' \<subseteq> insert cb (set A)"
    "distinct (map cb_promise A')" "cb_key cb = k" "cb_promise cb = N"
  shows "inv_core (P(k \<mapsto> N)) A' (Suc N)"
proof (rule inv_coreI)
  fix k' p assume "(P(k \<mapsto> N)) k' = Some p"
  then have "p = N \<or> P k' = Some p" by (simp split: if_splits)
  then show "p < Suc N" using inv_core_bound [OF assms(1)] by (auto simp: less_Suc_eq)
next
  fix k1 k2 p assume a: "(P(k \<mapsto> N)) k1 = Some p" "(P(k \<mapsto> N)) k2 = Some p"
  have "P k' \<noteq> Some N" for k' using inv_core_bound [OF assms(1), of k' N] by auto
  with a show "k1 = k2"
    using inv_core_inj [OF assms(1), of k1 p k2] by (auto split: if_splits)
next
  fix cb' assume "cb' \<in> set A'"
  then consider "cb' = cb" | "cb' \<in> set A" using assms(3) by auto
  then show "(P(k \<mapsto> N)) (cb_key cb') = Some (cb_promise cb')"
  proof cases
    case 1 then show ?thesis using assms(5,6) by simp
  next
    case 2
    then have "P (cb_key cb') = Some (cb_promise cb')" using assms(1) by (simp add: inv_core_pending)
    then show ?thesis using assms(2) by auto
  qed
next
  show "distinct (map cb_promise A')" by fact
qed

lemma inv_core_fresh:
  assumes "inv_core P A N" "cb \<in> set A"
  shows "cb_promise cb < N"
  using inv_core_bound [OF assms(1) inv_core_pending [OF assms]] .

subsection \<open>What the operations do to each field\<close>

lemma delete_pending_fields [simp]:
  "pendingCompletions (delete_pending k s) = (pendingCompletions s)(k := None)"
  "timers (delete_pending k s) = timers s"
  "awaiting (delete_pending k s) = awaiting s"
  "nextPromise (delete_pending k s) = nextPromise s"
  "completionCache (delete_pending k s) = completionCache s"
  "settled (delete_pending k s) = settled s"
  "issued (delete_pending k s) = issued s"
  "enabled (delete_pending k s) = enabled s"
  "lastCompletionTime (delete_pending k s) = lastCompletionTime s"
  by (simp_all add: delete_pending_def)

lemma resolve_fields [simp]:
  "pendingCompletions (resolve p v s) = pendingCompletions s"
  "timers (resolve p v s) = timers s"
  "awaiting (resolve p v s) = awaiting s"
  "nextPromise (resolve p v s) = nextPromise s"
  "completionCache (resolve p v s) = completionCache s"
  "issued (resolve p v s) = issued s"
  "enabled (resolve p v s) = enabled s"
  "lastCompletionTime (resolve p v s) = lastCompletionTime s"
  by (simp_all add: resolve_def split: option.splits)

lemma resolve_settled:
  "settled (resolve p v s) q =
     (if q = p \<and> settled s p = None then Some v else settled s q)"
  by (simp add: resolve_def split: option.splits)

lemma clearTimeout_fields [simp]:
  "pendingCompletions (clearTimeout t s) = pendingCompletions s"
  "timers (clearTimeout t s) = filter (\<lambda>(t', cb). t' \<noteq> t) (timers s)"
  "awaiting (clearTimeout t s) = awaiting s"
  "nextPromise (clearTimeout t s) = nextPromise s"
  "completionCache (clearTimeout t s) = completionCache s"
  "settled (clearTimeout t s) = settled s"
  "issued (clearTimeout t s) = issued s"
  "enabled (clearTimeout t s) = enabled s"
  "lastCompletionTime (clearTimeout t s) = lastCompletionTime s"
  "nextTimer (clearTimeout t s) = nextTimer s"
  by (simp_all add: clearTimeout_def)

lemma loadConfiguration_fields [simp]:
  "pendingCompletions (loadConfiguration e c s) = pendingCompletions s"
  "timers (loadConfiguration e c s) = timers s"
  "awaiting (loadConfiguration e c s) = awaiting s"
  "nextPromise (loadConfiguration e c s) = nextPromise s"
  "completionCache (loadConfiguration e c s) = completionCache s"
  "settled (loadConfiguration e c s) = settled s"
  "issued (loadConfiguration e c s) = issued s"
  "lastCompletionTime (loadConfiguration e c s) = lastCompletionTime s"
  by (simp_all add: loadConfiguration_def Let_def split: option.splits)

lemma timer_callback_shape:
  "(now - lastCompletionTime s < 1000 \<and> timer_callback cb now doc c m s = give_up cb s)
   \<or> (1000 \<le> now - lastCompletionTime s
       \<and> timer_callback cb now doc c m s = give_up cb (s\<lparr>lastCompletionTime := now\<rparr>))
   \<or> (1000 \<le> now - lastCompletionTime s
       \<and> (\<exists>aw call. aw_callback aw = cb
            \<and> timer_callback cb now doc c m s =
                s\<lparr>lastCompletionTime := now,
                  awaiting := awaiting s @ [(length (issued s), aw)],
                  issued := issued s @ [call]\<rparr>))"
proof (cases "now - lastCompletionTime s < 1000")
  case True
  then show ?thesis by (simp add: timer_callback_def)
next
  case late: False
  show ?thesis
  proof (cases "getSmartCompletionContext (languageConfig s) doc (cb_position cb) (languageId doc)")
    case None
    then show ?thesis using late by (simp add: timer_callback_def)
  next
    case (Some ctx)
    show ?thesis
    proof (cases "currentLine ctx")
      case None
      then show ?thesis using late Some by (simp add: timer_callback_def)
    next
      case cur: (Some cur)
      show ?thesis
      proof (cases "(length cur < 10 \<and> length (prefixCode ctx) < 20) \<or> c")
        case True
        then show ?thesis using late Some cur by (auto simp: timer_callback_def Let_def)
      next
        case False
        define aw where "aw = \<lparr>aw_callback = cb, aw_language = languageId doc,
                                aw_currentLine = cur\<rparr>"
        define call where "call =
           \<lparr>c_model = (case m of None \<Rightarrow> ''gpt-4'' | Some x \<Rightarrow> x),
            c_prompt = completePrompt ctx,
            c_options = \<lparr>o_systemPrompt = Some (completion_system_prompt (languageId doc)),
                         o_maxTokens = Some 150, o_temperature = Some (3 / 10),
                         o_endpoint = None, o_messages = None\<rparr>\<rparr>"
        have e: "timer_callback cb now doc c m s =
                s\<lparr>lastCompletionTime := now,
                  awaiting := awaiting s @ [(length (issued s), aw)],
                  issued := issued s @ [call]\<rparr>"
          using late Some cur False by (auto simp: timer_callback_def Let_def aw_def call_def)
        have a: "aw_callback aw = cb" by (simp add: aw_def)
        have l: "1000 \<le> now - lastCompletionTime s" using late by simp
        from a e have "\<exists>aw call. aw_callback aw = cb
            \<and> timer_callback cb now doc c m s =
                s\<lparr>lastCompletionTime := now,
                  awaiting := awaiting s @ [(length (issued s), aw)],
                  issued := issued s @ [call]\<rparr>" by blast
        with l show ?thesis by blast
      qed
    qed
  qed
qed

lemma continuation_shape:
  "continuation aw now r s = give_up (aw_callback aw) s
   \<or> (\<exists>lst. continuation aw now r s =
         delete_pending (cb_key (aw_callback aw))
           (resolve (cb_promise (aw_callback aw)) lst
              (s\<lparr>completionCache :=
                   (completionCache s)(cb_key (aw_callback aw) \<mapsto> (now + 30000, lst))\<rparr>)))"
proof (cases r)
  case (Rejects e)
  then show ?thesis by (simp add: continuation_def)
next
  case (Resolves response)
  show ?thesis
  proof (cases "truthy_str (r_error response) \<or> \<not> js_truthy (r_text response)")
    case True
    then show ?thesis using Resolves by (auto simp: continuation_def)
  next
    case False
    show ?thesis
    proof (cases "r_text response")
      case (JStr t)
      then have "continuation aw now r s =
         delete_pending (cb_key (aw_callback aw))
           (resolve (cb_promise (aw_callback aw))
              [\<lparr>insertText = postProcessCompletion (trim t) (aw_language aw) (aw_currentLine aw),
                range = (cb_position (aw_callback aw), cb_position (aw_callback aw))\<rparr>]
              (s\<lparr>completionCache :=
                   (completionCache s)(cb_key (aw_callback aw) \<mapsto> (now + 30000,
                     [\<lparr>insertText = postProcessCompletion (trim t) (aw_language aw) (aw_currentLine aw),
                       range = (cb_position (aw_callback aw), cb_position (aw_callback aw))\<rparr>]))\<rparr>))"
        using Resolves False by (simp add: continuation_def Let_def)
      then show ?thesis by blast
    qed (use Resolves False in \<open>simp_all add: continuation_def\<close>)
  qed
qed

lemma active_simps [simp]:
  "active (delete_pending k s) = active s"
  "active (resolve p v s) = active s"
  "active (s\<lparr>lastCompletionTime := x\<rparr>) = active s"
  "active (s\<lparr>completionCache := y\<rparr>) = active s"
  "active (loadConfiguration e c s) = active s"
  "active (setEnabled b s) = active s"
  by (simp_all add: active_def setEnabled_def)

lemma give_up_fields [simp]:
  "pendingCompletions (give_up cb s) = (pendingCompletions s)(cb_key cb := None)"
  "timers (give_up cb s) = timers s"
  "awaiting (give_up cb s) = awaiting s"
  "nextPromise (give_up cb s) = nextPromise s"
  "completionCache (give_up cb s) = completionCache s"
  "issued (give_up cb s) = issued s"
  "enabled (give_up cb s) = enabled s"
  "lastCompletionTime (give_up cb s) = lastCompletionTime s"
  "active (give_up cb s) = active s"
  by (simp_all add: give_up_def)

subsection \<open>The invariant holds in every reachable state\<close>

text \<open>Removing the entry of a timer or of a call removes its closure from the active ones.\<close>

lemma removed_promise:
  assumes "distinct (map (f \<circ> snd) xs)" "map_of xs t = Some v" "(t', v') \<in> set xs" "t' \<noteq> t"
  shows "f v' \<noteq> f v"
proof
  assume e: "f v' = f v"
  have m: "(t, v) \<in> set xs" using assms(2) by (rule map_of_SomeD)
  have i: "inj_on (f \<circ> snd) (set xs)" using assms(1) by (simp add: distinct_map)
  have fe: "(f \<circ> snd) (t', v') = (f \<circ> snd) (t, v)" using e by simp
  have "(t', v') = (t, v)" by (rule inj_onD [OF i fe assms(3) m])
  then show False using assms(4) by simp
qed

lemma drop_entry:
  assumes "distinct (map (f \<circ> snd) xs)" "map_of xs t = Some v"
  shows "f v \<notin> (f \<circ> snd) ` set (filter (\<lambda>(t', x). t' \<noteq> t) xs)"
proof
  assume "f v \<in> (f \<circ> snd) ` set (filter (\<lambda>(t', x). t' \<noteq> t) xs)"
  then obtain t' v' where "(t', v') \<in> set xs" "t' \<noteq> t" "f v' = f v" by auto
  then show False using removed_promise [OF assms] by blast
qed

lemma distinct_filter_left:
  "distinct (map f xs @ ys) \<Longrightarrow> distinct (map f (filter Q xs) @ ys)"
  by (induction xs) auto

lemma distinct_filter_right:
  "distinct (ys @ map f xs) \<Longrightarrow> distinct (ys @ map f (filter Q xs))"
  by (induction xs) auto

lemma active_alt:
  "map cb_promise (active s) =
     map (cb_promise \<circ> snd) (timers s) @ map ((cb_promise \<circ> aw_callback) \<circ> snd) (awaiting s)"
  by (simp add: active_def comp_def case_prod_unfold)

lemma set_active:
  "set (active s) = snd ` set (timers s) \<union> (aw_callback \<circ> snd) ` set (awaiting s)"
  by (auto simp: active_def case_prod_unfold image_iff)

lemma promises_active:
  "cb_promise ` set (active s) =
     (cb_promise \<circ> snd) ` set (timers s) \<union> ((cb_promise \<circ> aw_callback) \<circ> snd) ` set (awaiting s)"
  using arg_cong [OF active_alt, of set s] by simp

text \<open>The four facts about the state from which the entry of a timer has been removed.\<close>

lemma timer_removed:
  assumes "inv s" "map_of (timers s) t = Some cb"
  shows "cb \<in> set (active s)"
    and "set (active (clearTimeout t s)) \<subseteq> set (active s)"
    and "cb_promise cb \<notin> cb_promise ` set (active (clearTimeout t s))"
    and "distinct (map cb_promise (active (clearTimeout t s)))"
proof -
  have d: "distinct (map cb_promise (active s))"
    using assms(1) unfolding inv_def by (rule inv_core_distinct)
  have m: "(t, cb) \<in> set (timers s)" using assms(2) by (rule map_of_SomeD)
  then show in_a: "cb \<in> set (active s)" by (force simp: set_active)
  show "set (active (clearTimeout t s)) \<subseteq> set (active s)"
    by (auto simp: set_active)
  have dt: "distinct (map (cb_promise \<circ> snd) (timers s))"
    using d by (simp add: active_alt)
  have "cb_promise cb \<notin> (cb_promise \<circ> snd) ` set (filter (\<lambda>(t', x). t' \<noteq> t) (timers s))"
    using dt assms(2) by (rule drop_entry)
  moreover have "cb_promise cb \<notin> ((cb_promise \<circ> aw_callback) \<circ> snd) ` set (awaiting s)"
    using d m unfolding active_alt by (force simp: image_iff)
  ultimately show "cb_promise cb \<notin> cb_promise ` set (active (clearTimeout t s))"
    unfolding promises_active by simp
  have "distinct (map (cb_promise \<circ> snd) (timers s)
                  @ map ((cb_promise \<circ> aw_callback) \<circ> snd) (awaiting s))"
    using d by (simp only: active_alt)
  then have "distinct (map (cb_promise \<circ> snd) (filter (\<lambda>(t', cb). t' \<noteq> t) (timers s))
                  @ map ((cb_promise \<circ> aw_callback) \<circ> snd) (awaiting s))"
    by (rule distinct_filter_left)
  then show "distinct (map cb_promise (active (clearTimeout t s)))"
    by (simp only: active_alt clearTimeout_fields)
qed

lemma call_removed:
  assumes "inv s" "map_of (awaiting s) c = Some aw"
  defines "s1 \<equiv> s\<lparr>awaiting := filter (\<lambda>(c', a). c' \<noteq> c) (awaiting s)\<rparr>"
  shows "aw_callback aw \<in> set (active s)"
    and "set (active s1) \<subseteq> set (active s)"
    and "cb_promise (aw_callback aw) \<notin> cb_promise ` set (active s1)"
    and "distinct (map cb_promise (active s1))"
proof -
  have d: "distinct (map cb_promise (active s))"
    using assms(1) unfolding inv_def by (rule inv_core_distinct)
  have m: "(c, aw) \<in> set (awaiting s)" using assms(2) by (rule map_of_SomeD)
  then show in_a: "aw_callback aw \<in> set (active s)" by (force simp: set_active)
  show "set (active s1) \<subseteq> set (active s)"
    by (auto simp: set_active s1_def)
  have dt: "distinct (map ((cb_promise \<circ> aw_callback) \<circ> snd) (awaiting s))"
    using d by (simp add: active_alt)
  have "(cb_promise \<circ> aw_callback) aw
          \<notin> ((cb_promise \<circ> aw_callback) \<circ> snd) ` set (filter (\<lambda>(t', x). t' \<noteq> c) (awaiting s))"
    using dt assms(2) by (rule drop_entry)
  moreover have "cb_promise (aw_callback aw) \<notin> (cb_promise \<circ> snd) ` set (timers s)"
    using d m unfolding active_alt by (force simp: image_iff)
  ultimately show "cb_promise (aw_callback aw) \<notin> cb_promise ` set (active s1)"
    unfolding promises_active by (simp add: s1_def)
  have "distinct (map (cb_promise \<circ> snd) (timers s)
                  @ map ((cb_promise \<circ> aw_callback) \<circ> snd) (awaiting s))"
    using d by (simp only: active_alt)
  then have "distinct (map (cb_promise \<circ> snd) (timers s)
                  @ map ((cb_promise \<circ> aw_callback) \<circ> snd)
                      (filter (\<lambda>(c', a). c' \<noteq> c) (awaiting s)))"
    by (rule distinct_filter_right)
  moreover have "timers s1 = timers s" "awaiting s1 = filter (\<lambda>(c', a). c' \<noteq> c) (awaiting s)"
    by (simp_all add: s1_def)
  ultimately show "distinct (map cb_promise (active s1))"
    by (simp only: active_alt)
qed

lemma inv_core_finish:
  assumes "inv_core P A N" "cb \<in> set A" "set A1 \<subseteq> set A"
    "cb_promise cb \<notin> cb_promise ` set A1" "distinct (map cb_promise A1)"
  shows "inv_core (P(cb_key cb := None)) A1 N" and "inv_core P (A1 @ [cb]) N"
proof -
  have "set A1 \<subseteq> set A - {cb}" using assms(3,4) by auto
  then show "inv_core (P(cb_key cb := None)) A1 N"
    using assms(1,2,5) by (intro inv_core_remove) auto
  show "inv_core P (A1 @ [cb]) N"
    using assms by (intro inv_core_subset [OF assms(1)]) auto
qed

lemma inv_fire:
  assumes "inv s"
  shows "inv (step (Fire t now doc c m) s)"
proof (cases "map_of (timers s) t")
  case None
  then show ?thesis using assms by simp
next
  case (Some cb)
  let ?s1 = "clearTimeout t s"
  note r = timer_removed [OF assms Some]
  have core: "inv_core (pendingCompletions s) (active s) (nextPromise s)"
    using assms by (simp add: inv_def)
  note f = inv_core_finish [OF core r]
  have st: "step (Fire t now doc c m) s = timer_callback cb now doc c m ?s1"
    using Some by simp
  from timer_callback_shape [of now ?s1 cb doc c m]
  show ?thesis
  proof (elim disjE conjE exE)
    assume "timer_callback cb now doc c m ?s1 = give_up cb ?s1"
    then show ?thesis unfolding st using f(1) by (simp add: inv_def)
  next
    assume "timer_callback cb now doc c m ?s1 = give_up cb (?s1\<lparr>lastCompletionTime := now\<rparr>)"
    then show ?thesis unfolding st using f(1) by (simp add: inv_def)
  next
    fix aw call
    assume a: "aw_callback aw = cb"
      and "timer_callback cb now doc c m ?s1 =
             ?s1\<lparr>lastCompletionTime := now,
                 awaiting := awaiting ?s1 @ [(length (issued ?s1), aw)],
                 issued := issued ?s1 @ [call]\<rparr>"
    then have e: "step (Fire t now doc c m) s =
             ?s1\<lparr>lastCompletionTime := now,
                 awaiting := awaiting ?s1 @ [(length (issued ?s1), aw)],
                 issued := issued ?s1 @ [call]\<rparr>" unfolding st by simp
    have "active (step (Fire t now doc c m) s) = active ?s1 @ [cb]"
      unfolding e by (simp add: active_def a)
    moreover have "pendingCompletions (step (Fire t now doc c m) s) = pendingCompletions s"
      "nextPromise (step (Fire t now doc c m) s) = nextPromise s"
      unfolding e by simp_all
    ultimately show ?thesis using f(2) by (simp add: inv_def)
  qed
qed

lemma inv_complete:
  assumes "inv s"
  shows "inv (step (Complete c now r) s)"
proof (cases "map_of (awaiting s) c")
  case None
  then show ?thesis using assms by simp
next
  case (Some aw)
  let ?s1 = "s\<lparr>awaiting := filter (\<lambda>(c', a). c' \<noteq> c) (awaiting s)\<rparr>"
  let ?cb = "aw_callback aw"
  note r = call_removed [OF assms Some]
  have core: "inv_core (pendingCompletions s) (active s) (nextPromise s)"
    using assms by (simp add: inv_def)
  note f = inv_core_finish [OF core r]
  have st: "step (Complete c now r) s = continuation aw now r ?s1"
    using Some by simp
  from continuation_shape [of aw now r ?s1]
  show ?thesis
  proof (elim disjE exE)
    assume "continuation aw now r ?s1 = give_up ?cb ?s1"
    then show ?thesis unfolding st using f(1) by (simp add: inv_def)
  next
    fix lst
    assume "continuation aw now r ?s1 =
         delete_pending (cb_key ?cb)
           (resolve (cb_promise ?cb) lst
              (?s1\<lparr>completionCache :=
                   (completionCache ?s1)(cb_key ?cb \<mapsto> (now + 30000, lst))\<rparr>))"
    then show ?thesis unfolding st using f(1) by (simp add: inv_def)
  qed
qed

text \<open>The state in which \<^verbatim>\<open>provideInlineCompletionItems\<close> schedules its timer.\<close>

lemma cleared_fields:
  fixes s :: Provider
  defines "s1 \<equiv> (case debounceTimeout s of None \<Rightarrow> s | Some t \<Rightarrow> clearTimeout t s)"
  shows "pendingCompletions s1 = pendingCompletions s"
    and "nextPromise s1 = nextPromise s"
    and "awaiting s1 = awaiting s"
    and "completionCache s1 = completionCache s"
    and "issued s1 = issued s"
    and "settled s1 = settled s"
    and "enabled s1 = enabled s"
    and "lastCompletionTime s1 = lastCompletionTime s"
    and "\<exists>Q. timers s1 = filter Q (timers s)"
proof -
  show "\<exists>Q. timers s1 = filter Q (timers s)"
  proof (cases "debounceTimeout s")
    case None
    then have "timers s1 = filter (\<lambda>x. True) (timers s)" by (simp add: s1_def)
    then show ?thesis by blast
  next
    case (Some t)
    then have "timers s1 = filter (\<lambda>(t', cb). t' \<noteq> t) (timers s)" by (simp add: s1_def)
    then show ?thesis by blast
  qed
qed (simp_all add: s1_def split: option.splits)

lemma inv_provide:
  assumes "inv s"
  shows "inv (snd (provideInlineCompletionItems s doc pos ctx now d))"
proof -
  let ?key = "cache_key doc pos"
  let ?fresh = "(case completionCache s ?key of None \<Rightarrow> None
                 | Some (expiresAt, items) \<Rightarrow> if expiresAt > now then Some items else None)"
  show ?thesis
  proof (cases "enabled s \<and> shouldSkipCompletion doc pos ctx = Some False \<and> ?fresh = None
                \<and> pendingCompletions s ?key = None")
    case False
    then have "snd (provideInlineCompletionItems s doc pos ctx now d) = s"
      by (auto simp: provideInlineCompletionItems_def Let_def split: option.splits bool.splits)
    then show ?thesis using assms by simp
  next
    case True
    define s1 where "s1 = (case debounceTimeout s of None \<Rightarrow> s | Some t \<Rightarrow> clearTimeout t s)"
    define cb where "cb = \<lparr>cb_key = ?key, cb_position = pos, cb_promise = nextPromise s1,
                           cb_delay = (case d of None \<Rightarrow> 300 | Some x \<Rightarrow> x)\<rparr>"
    define s2 where "s2 = s1\<lparr>debounceTimeout := Some (nextTimer s1),
                             timers := timers s1 @ [(nextTimer s1, cb)],
                             nextTimer := Suc (nextTimer s1),
                             nextPromise := Suc (nextPromise s1),
                             pendingCompletions := (pendingCompletions s1)(?key \<mapsto> nextPromise s1)\<rparr>"
    have e: "snd (provideInlineCompletionItems s doc pos ctx now d) = s2"
      using True by (simp add: provideInlineCompletionItems_def Let_def s1_def cb_def s2_def)
    note c = cleared_fields [of s, folded s1_def]
    obtain Q where q: "timers s1 = filter Q (timers s)" using c(9) by blast
    have core: "inv_core (pendingCompletions s) (active s) (nextPromise s)"
      using assms by (simp add: inv_def)
    have d0: "distinct (map (cb_promise \<circ> snd) (timers s)
                  @ map ((cb_promise \<circ> aw_callback) \<circ> snd) (awaiting s))"
      using inv_core_distinct [OF core] by (simp only: active_alt)
    then have d1: "distinct (map (cb_promise \<circ> snd) (filter Q (timers s))
                  @ map ((cb_promise \<circ> aw_callback) \<circ> snd) (awaiting s))"
      by (rule distinct_filter_left)
    have sub: "set (active s1) \<subseteq> set (active s)"
      by (auto simp: set_active q c)
    have fresh: "nextPromise s \<notin> cb_promise ` set (active s)"
    proof
      assume "nextPromise s \<in> cb_promise ` set (active s)"
      then obtain x where "x \<in> set (active s)" "cb_promise x = nextPromise s" by auto
      then show False using inv_core_fresh [OF core, of x] by simp
    qed
    then have fresh1: "nextPromise s \<notin> cb_promise ` set (active s1)"
      using sub by auto
    have a2: "active s2 = map snd (timers s1) @ [cb] @ map (\<lambda>(c, a). aw_callback a) (awaiting s)"
      by (simp add: s2_def active_def c)
    have m2: "map cb_promise (active s2) =
                map (cb_promise \<circ> snd) (filter Q (timers s)) @ [nextPromise s]
                @ map ((cb_promise \<circ> aw_callback) \<circ> snd) (awaiting s)"
      by (simp add: a2 cb_def c q comp_def case_prod_unfold)
    have fresh2: "nextPromise s \<notin> (cb_promise \<circ> snd) ` set (filter Q (timers s))"
      "nextPromise s \<notin> ((cb_promise \<circ> aw_callback) \<circ> snd) ` set (awaiting s)"
      using fresh1 unfolding promises_active by (simp_all add: q c)
    have "distinct (map cb_promise (active s2))"
      unfolding m2 using d1 fresh2 by auto
    moreover have "set (active s2) \<subseteq> insert cb (set (active s))"
      using sub unfolding a2 by (auto simp: active_def c)
    moreover have "pendingCompletions s ?key = None" using True by simp
    moreover have "cb_key cb = ?key" "cb_promise cb = nextPromise s" by (simp_all add: cb_def c)
    ultimately have "inv_core ((pendingCompletions s)(?key \<mapsto> nextPromise s)) (active s2)
                       (Suc (nextPromise s))"
      using core by (intro inv_core_add) auto
    moreover have "pendingCompletions s2 = (pendingCompletions s)(?key \<mapsto> nextPromise s)"
      "nextPromise s2 = Suc (nextPromise s)"
      by (simp_all add: s2_def c)
    ultimately show ?thesis unfolding e by (simp add: inv_def)
  qed
qed

lemma inv_step: "inv s \<Longrightarrow> inv (step e s)"
proof (cases e)
  case (Provide doc pos ctx now d)
  assume "inv s"
  then show ?thesis unfolding Provide step.simps by (rule inv_provide)
next
  case (Fire t now doc c m)
  assume "inv s"
  then show ?thesis unfolding Fire by (rule inv_fire)
next
  case (Complete c now r)
  assume "inv s"
  then show ?thesis unfolding Complete by (rule inv_complete)
next
  case (SetEnabled b)
  assume "inv s"
  then show ?thesis unfolding SetEnabled by (simp add: inv_def setEnabled_def active_def)
next
  case (ConfigurationChanged en cu)
  assume "inv s"
  then show ?thesis unfolding ConfigurationChanged by (simp add: inv_def)
qed

lemma inv_run: "inv s \<Longrightarrow> inv (run es s)"
  unfolding run_def by (induction es arbitrary: s) (simp_all add: inv_step)

lemma inv_new_provider: "inv (new_provider en cu)"
  by (simp add: inv_def inv_core_def new_provider_def active_def)

lemma inv_reachable: "inv (run es (new_provider en cu))"
  using inv_new_provider by (rule inv_run)

subsection \<open>What a request does\<close>

lemma run_snoc: "run (es @ [e]) s = step e (run es s)"
  by (simp add: run_def)

lemma run_append: "run (es @ es') s = run es' (run es s)"
  by (simp add: run_def)

lemma give_up_settled:
  "settled (give_up cb s) q =
     (if q = cb_promise cb \<and> settled s (cb_promise cb) = None then Some [] else settled s q)"
  by (simp add: give_up_def resolve_settled)

lemma provide_same_or_new:
  "snd (provideInlineCompletionItems s doc pos ctx now d) = s
   \<or> (enabled s \<and> shouldSkipCompletion doc pos ctx = Some False
       \<and> pendingCompletions s (cache_key doc pos) = None
       \<and> (\<forall>e items. completionCache s (cache_key doc pos) = Some (e, items) \<longrightarrow> e \<le> now)
       \<and> (\<exists>s1 cb. s1 = (case debounceTimeout s of None \<Rightarrow> s | Some t \<Rightarrow> clearTimeout t s)
            \<and> cb_key cb = cache_key doc pos \<and> cb_promise cb = nextPromise s
            \<and> provideInlineCompletionItems s doc pos ctx now d =
                (Follows (nextPromise s),
                 s1\<lparr>debounceTimeout := Some (nextTimer s1),
                    timers := timers s1 @ [(nextTimer s1, cb)],
                    nextTimer := Suc (nextTimer s1),
                    nextPromise := Suc (nextPromise s1),
                    pendingCompletions := (pendingCompletions s1)(cache_key doc pos \<mapsto> nextPromise s1)\<rparr>)))"
proof -
  let ?key = "cache_key doc pos"
  let ?fresh = "(case completionCache s ?key of None \<Rightarrow> None
                 | Some (expiresAt, items) \<Rightarrow> if expiresAt > now then Some items else None)"
  show ?thesis
  proof (cases "enabled s \<and> shouldSkipCompletion doc pos ctx = Some False \<and> ?fresh = None
                \<and> pendingCompletions s ?key = None")
    case False
    then have "snd (provideInlineCompletionItems s doc pos ctx now d) = s"
      by (auto simp: provideInlineCompletionItems_def Let_def split: option.splits bool.splits)
    then show ?thesis by blast
  next
    case True
    define s1 where "s1 = (case debounceTimeout s of None \<Rightarrow> s | Some t \<Rightarrow> clearTimeout t s)"
    define cb where "cb = \<lparr>cb_key = ?key, cb_position = pos, cb_promise = nextPromise s1,
                           cb_delay = (case d of None \<Rightarrow> 300 | Some x \<Rightarrow> x)\<rparr>"
    note c = cleared_fields [of s, folded s1_def]
    have e: "provideInlineCompletionItems s doc pos ctx now d =
                (Follows (nextPromise s),
                 s1\<lparr>debounceTimeout := Some (nextTimer s1),
                    timers := timers s1 @ [(nextTimer s1, cb)],
                    nextTimer := Suc (nextTimer s1),
                    nextPromise := Suc (nextPromise s1),
                    pendingCompletions := (pendingCompletions s1)(?key \<mapsto> nextPromise s1)\<rparr>)"
      using True by (simp add: provideInlineCompletionItems_def Let_def s1_def [symmetric] cb_def c)
    have k: "cb_key cb = ?key" "cb_promise cb = nextPromise s" by (simp_all add: cb_def c)
    have f: "\<forall>e items. completionCache s ?key = Some (e, items) \<longrightarrow> e \<le> now"
      using True by (auto split: option.splits if_splits)
    from e k s1_def have "\<exists>s1 cb. s1 = (case debounceTimeout s of None \<Rightarrow> s | Some t \<Rightarrow> clearTimeout t s)
            \<and> cb_key cb = cache_key doc pos \<and> cb_promise cb = nextPromise s
            \<and> provideInlineCompletionItems s doc pos ctx now d =
                (Follows (nextPromise s),
                 s1\<lparr>debounceTimeout := Some (nextTimer s1),
                    timers := timers s1 @ [(nextTimer s1, cb)],
                    nextTimer := Suc (nextTimer s1),
                    nextPromise := Suc (nextPromise s1),
                    pendingCompletions := (pendingCompletions s1)(cache_key doc pos \<mapsto> nextPromise s1)\<rparr>)"
      by blast
    with True f show ?thesis by blast
  qed
qed



subsection \<open>Promises of active closures are not settled\<close>

lemma unsettled_finish:
  assumes "inv s" "unsettled s" "cb \<in> set (active s)" "set (active s') \<subseteq> set (active s)"
    "cb_promise cb \<notin> cb_promise ` set (active s')" "nextPromise s' = nextPromise s"
    "\<And>q. q \<noteq> cb_promise cb \<Longrightarrow> settled s' q = settled s q"
  shows "unsettled s'"
  unfolding unsettled_def
proof (intro conjI ballI allI impI)
  fix cb' assume a: "cb' \<in> set (active s')"
  then have "cb_promise cb' \<noteq> cb_promise cb" using assms(5) by (metis imageI)
  then have "settled s' (cb_promise cb') = settled s (cb_promise cb')" by (rule assms(7))
  moreover have "cb' \<in> set (active s)" using a assms(4) by auto
  ultimately show "settled s' (cb_promise cb') = None" using assms(2) by (simp add: unsettled_def)
next
  fix p v assume a: "settled s' p = Some v"
  show "p < nextPromise s'"
  proof (cases "p = cb_promise cb")
    case True
    have "cb_promise cb < nextPromise s"
      using assms(1,3) unfolding inv_def by (rule inv_core_fresh)
    then show ?thesis using True assms(6) by simp
  next
    case False
    then have "settled s p = Some v" using a assms(7) by simp
    then show ?thesis using assms(2,6) by (simp add: unsettled_def)
  qed
qed

lemma unsettled_subset:
  assumes "unsettled s" "set (active s') \<subseteq> set (active s)" "settled s' = settled s"
    "nextPromise s' = nextPromise s"
  shows "unsettled s'"
  using assms unfolding unsettled_def by auto

lemma unsettled_fire:
  assumes "inv s" "unsettled s"
  shows "unsettled (step (Fire t now doc c m) s)"
proof (cases "map_of (timers s) t")
  case None
  then show ?thesis using assms by simp
next
  case (Some cb)
  let ?s1 = "clearTimeout t s"
  note r = timer_removed [OF assms(1) Some]
  have st: "step (Fire t now doc c m) s = timer_callback cb now doc c m ?s1"
    using Some by simp
  from timer_callback_shape [of now ?s1 cb doc c m]
  show ?thesis
  proof (elim disjE conjE exE)
    assume e: "timer_callback cb now doc c m ?s1 = give_up cb ?s1"
    show ?thesis unfolding st e
      using assms r(1) by (rule unsettled_finish) (use r in \<open>simp_all add: give_up_settled\<close>)
  next
    assume e: "timer_callback cb now doc c m ?s1 = give_up cb (?s1\<lparr>lastCompletionTime := now\<rparr>)"
    show ?thesis unfolding st e
      using assms r(1) by (rule unsettled_finish) (use r in \<open>simp_all add: give_up_settled\<close>)
  next
    fix aw call
    assume a: "aw_callback aw = cb"
      and e: "timer_callback cb now doc c m ?s1 =
             ?s1\<lparr>lastCompletionTime := now,
                 awaiting := awaiting ?s1 @ [(length (issued ?s1), aw)],
                 issued := issued ?s1 @ [call]\<rparr>"
    have "active (?s1\<lparr>lastCompletionTime := now,
                 awaiting := awaiting ?s1 @ [(length (issued ?s1), aw)],
                 issued := issued ?s1 @ [call]\<rparr>) = active ?s1 @ [cb]"
      by (simp add: active_def a)
    then show ?thesis unfolding st e
      using r(1,2) by (intro unsettled_subset [OF assms(2)]) simp_all
  qed
qed

lemma unsettled_complete:
  assumes "inv s" "unsettled s"
  shows "unsettled (step (Complete c now r) s)"
proof (cases "map_of (awaiting s) c")
  case None
  then show ?thesis using assms by simp
next
  case (Some aw)
  let ?s1 = "s\<lparr>awaiting := filter (\<lambda>(c', a). c' \<noteq> c) (awaiting s)\<rparr>"
  let ?cb = "aw_callback aw"
  note r = call_removed [OF assms(1) Some]
  have st: "step (Complete c now r) s = continuation aw now r ?s1"
    using Some by simp
  from continuation_shape [of aw now r ?s1]
  show ?thesis
  proof (elim disjE exE)
    assume e: "continuation aw now r ?s1 = give_up ?cb ?s1"
    show ?thesis unfolding st e
      using assms r(1) by (rule unsettled_finish) (use r in \<open>simp_all add: give_up_settled\<close>)
  next
    fix lst
    assume e: "continuation aw now r ?s1 =
         delete_pending (cb_key ?cb)
           (resolve (cb_promise ?cb) lst
              (?s1\<lparr>completionCache :=
                   (completionCache ?s1)(cb_key ?cb \<mapsto> (now + 30000, lst))\<rparr>))"
    show ?thesis unfolding st e
      using assms r(1) by (rule unsettled_finish) (use r in \<open>simp_all add: resolve_settled\<close>)
  qed
qed

lemma unsettled_provide:
  assumes "inv s" "unsettled s"
  shows "unsettled (snd (provideInlineCompletionItems s doc pos ctx now d))"
proof -
  from provide_same_or_new [of s doc pos ctx now d]
  show ?thesis
  proof (elim disjE conjE exE)
    assume "snd (provideInlineCompletionItems s doc pos ctx now d) = s"
    then show ?thesis using assms(2) by simp
  next
    fix s1 cb
    assume s1: "s1 = (case debounceTimeout s of None \<Rightarrow> s | Some t \<Rightarrow> clearTimeout t s)"
      and k: "cb_promise cb = nextPromise s"
      and e: "provideInlineCompletionItems s doc pos ctx now d =
                (Follows (nextPromise s),
                 s1\<lparr>debounceTimeout := Some (nextTimer s1),
                    timers := timers s1 @ [(nextTimer s1, cb)],
                    nextTimer := Suc (nextTimer s1),
                    nextPromise := Suc (nextPromise s1),
                    pendingCompletions := (pendingCompletions s1)(cache_key doc pos \<mapsto> nextPromise s1)\<rparr>)"
    note c = cleared_fields [of s, folded s1]
    obtain Q where q: "timers s1 = filter Q (timers s)" using c(9) by blast
    let ?s2 = "s1\<lparr>debounceTimeout := Some (nextTimer s1),
                    timers := timers s1 @ [(nextTimer s1, cb)],
                    nextTimer := Suc (nextTimer s1),
                    nextPromise := Suc (nextPromise s1),
                    pendingCompletions := (pendingCompletions s1)(cache_key doc pos \<mapsto> nextPromise s1)\<rparr>"
    have a: "set (active ?s2) \<subseteq> insert cb (set (active s))"
      by (auto simp: set_active q c)
    have n: "settled s (nextPromise s) = None"
      using assms(2) unfolding unsettled_def by (cases "settled s (nextPromise s)") auto
    have "unsettled ?s2"
      unfolding unsettled_def
    proof (intro conjI ballI allI impI)
      fix cb' assume "cb' \<in> set (active ?s2)"
      then consider "cb' = cb" | "cb' \<in> set (active s)" using a by auto
      then show "settled ?s2 (cb_promise cb') = None"
        using n k assms(2) by cases (simp_all add: c unsettled_def)
    next
      fix p v assume "settled ?s2 p = Some v"
      then have "p < nextPromise s" using assms(2) by (simp add: c unsettled_def)
      then show "p < nextPromise ?s2" by (simp add: c)
    qed
    then show ?thesis by (simp add: e)
  qed
qed

lemma unsettled_step: "inv s \<Longrightarrow> unsettled s \<Longrightarrow> unsettled (step e s)"
proof (cases e)
  case (Provide doc pos ctx now d)
  assume "inv s" "unsettled s"
  then show ?thesis unfolding Provide step.simps by (rule unsettled_provide)
next
  case (Fire t now doc c m)
  assume "inv s" "unsettled s"
  then show ?thesis unfolding Fire by (rule unsettled_fire)
next
  case (Complete c now r)
  assume "inv s" "unsettled s"
  then show ?thesis unfolding Complete by (rule unsettled_complete)
next
  case (SetEnabled b)
  assume "inv s" "unsettled s"
  then show ?thesis unfolding SetEnabled by (simp add: unsettled_def setEnabled_def active_def)
next
  case (ConfigurationChanged en cu)
  assume "inv s" "unsettled s"
  then show ?thesis unfolding ConfigurationChanged by (simp add: unsettled_def)
qed

lemma unsettled_run: "inv s \<Longrightarrow> unsettled s \<Longrightarrow> unsettled (run es s)"
proof (induction es rule: rev_induct)
  case Nil
  then show ?case by (simp add: run_def)
next
  case (snoc e es)
  then show ?case unfolding run_snoc by (intro unsettled_step inv_run) simp_all
qed

lemma unsettled_new_provider: "unsettled (new_provider en cu)"
  by (simp add: unsettled_def new_provider_def active_def)

lemma unsettled_reachable: "unsettled (run es (new_provider en cu))"
  using inv_new_provider unsettled_new_provider by (rule unsettled_run)

subsection \<open>A pending key has no fresh cache entry\<close>







subsection \<open>No pending promise is settled\<close>








subsection \<open>One call per key\<close>





subsection \<open>A fresh cache entry stays until it expires\<close>

lemma kept_finish:
  assumes "kept k x lst p s" "cb \<in> set (active s)" "set (active s') \<subseteq> set (active s)"
    "\<And>k'. k' \<noteq> cb_key cb \<Longrightarrow> completionCache s' k' = completionCache s k'"
    "\<And>q. settled s q \<noteq> None \<Longrightarrow> settled s' q = settled s q"
  shows "kept k x lst p s'"
proof -
  have "cb_key cb \<noteq> k" using assms(1,2) by (auto simp: kept_def)
  then have "completionCache s' k = completionCache s k" using assms(4) by simp
  moreover have "settled s' p = settled s p" using assms(1,5) by (simp add: kept_def)
  ultimately show ?thesis using assms(1,3) by (auto simp: kept_def)
qed

lemma kept_step:
  assumes "kept k x lst p s" "\<forall>t\<in>set (reading e). t < x"
  shows "kept k x lst p (step e s)"
proof (cases e)
  case (Provide doc pos ctx now d)
  have now: "now < x" using assms(2) Provide by simp
  from provide_same_or_new [of s doc pos ctx now d]
  show ?thesis
  proof (elim disjE conjE exE)
    assume "snd (provideInlineCompletionItems s doc pos ctx now d) = s"
    then show ?thesis using assms(1) by (simp add: Provide)
  next
    fix s1 cb
    assume s1: "s1 = (case debounceTimeout s of None \<Rightarrow> s | Some t \<Rightarrow> clearTimeout t s)"
      and f: "\<forall>e items. completionCache s (cache_key doc pos) = Some (e, items) \<longrightarrow> e \<le> now"
      and k: "cb_key cb = cache_key doc pos"
      and e: "provideInlineCompletionItems s doc pos ctx now d =
                (Follows (nextPromise s),
                 s1\<lparr>debounceTimeout := Some (nextTimer s1),
                    timers := timers s1 @ [(nextTimer s1, cb)],
                    nextTimer := Suc (nextTimer s1),
                    nextPromise := Suc (nextPromise s1),
                    pendingCompletions := (pendingCompletions s1)(cache_key doc pos \<mapsto> nextPromise s1)\<rparr>)"
    note c = cleared_fields [of s, folded s1]
    obtain Q where q: "timers s1 = filter Q (timers s)" using c(9) by blast
    let ?s2 = "s1\<lparr>debounceTimeout := Some (nextTimer s1),
                    timers := timers s1 @ [(nextTimer s1, cb)],
                    nextTimer := Suc (nextTimer s1),
                    nextPromise := Suc (nextPromise s1),
                    pendingCompletions := (pendingCompletions s1)(cache_key doc pos \<mapsto> nextPromise s1)\<rparr>"
    have a: "set (active ?s2) \<subseteq> insert cb (set (active s))"
      by (auto simp: set_active q c)
    have "cache_key doc pos \<noteq> k"
    proof
      assume "cache_key doc pos = k"
      then have "x \<le> now" using f assms(1) by (auto simp: kept_def)
      then show False using now by simp
    qed
    then have "\<forall>cb'\<in>set (active ?s2). cb_key cb' \<noteq> k"
      using a k assms(1) by (auto simp: kept_def)
    then have "kept k x lst p ?s2"
      using assms(1) by (simp add: kept_def c)
    then show ?thesis by (simp add: Provide e)
  qed
next
  case (Fire t now doc c m)
  show ?thesis
  proof (cases "map_of (timers s) t")
    case None
    then show ?thesis using assms(1) by (simp add: Fire)
  next
    case (Some cb)
    let ?s1 = "clearTimeout t s"
    have m: "cb \<in> set (active s)" using map_of_SomeD [OF Some] by (force simp: set_active)
    have sub: "set (active ?s1) \<subseteq> set (active s)" by (auto simp: set_active)
    have st: "step e s = timer_callback cb now doc c m ?s1"
      using Some by (simp add: Fire)
    from timer_callback_shape [of now ?s1 cb doc c m]
    show ?thesis
    proof (elim disjE conjE exE)
      assume e: "timer_callback cb now doc c m ?s1 = give_up cb ?s1"
      show ?thesis unfolding st e
        using assms(1) m by (rule kept_finish) (use sub in \<open>auto simp: give_up_settled\<close>)
    next
      assume e: "timer_callback cb now doc c m ?s1 = give_up cb (?s1\<lparr>lastCompletionTime := now\<rparr>)"
      show ?thesis unfolding st e
        using assms(1) m by (rule kept_finish) (use sub in \<open>auto simp: give_up_settled\<close>)
    next
      fix aw call
      assume a: "aw_callback aw = cb"
        and e: "timer_callback cb now doc c m ?s1 =
             ?s1\<lparr>lastCompletionTime := now,
                 awaiting := awaiting ?s1 @ [(length (issued ?s1), aw)],
                 issued := issued ?s1 @ [call]\<rparr>"
      have "active (?s1\<lparr>lastCompletionTime := now,
                 awaiting := awaiting ?s1 @ [(length (issued ?s1), aw)],
                 issued := issued ?s1 @ [call]\<rparr>) = active ?s1 @ [cb]"
        by (simp add: active_def a)
      then show ?thesis unfolding st e
        using assms(1) m by (intro kept_finish [OF assms(1) m]) (use sub in auto)
    qed
  qed
next
  case (Complete c now r)
  show ?thesis
  proof (cases "map_of (awaiting s) c")
    case None
    then show ?thesis using assms(1) by (simp add: Complete)
  next
    case (Some aw)
    let ?s1 = "s\<lparr>awaiting := filter (\<lambda>(c', a). c' \<noteq> c) (awaiting s)\<rparr>"
    let ?cb = "aw_callback aw"
    have m: "?cb \<in> set (active s)" using map_of_SomeD [OF Some] by (force simp: set_active)
    have sub: "set (active ?s1) \<subseteq> set (active s)" by (auto simp: set_active)
    have st: "step e s = continuation aw now r ?s1"
      using Some by (simp add: Complete)
    from continuation_shape [of aw now r ?s1]
    show ?thesis
    proof (elim disjE exE)
      assume e: "continuation aw now r ?s1 = give_up ?cb ?s1"
      show ?thesis unfolding st e
        using assms(1) m by (rule kept_finish) (use sub in \<open>auto simp: give_up_settled\<close>)
    next
      fix l
      assume e: "continuation aw now r ?s1 =
         delete_pending (cb_key ?cb)
           (resolve (cb_promise ?cb) l
              (?s1\<lparr>completionCache :=
                   (completionCache ?s1)(cb_key ?cb \<mapsto> (now + 30000, l))\<rparr>))"
      show ?thesis unfolding st e
        using assms(1) m by (rule kept_finish) (use sub in \<open>auto simp: resolve_settled\<close>)
    qed
  qed
next
  case (SetEnabled b)
  show ?thesis using assms(1) by (simp add: SetEnabled setEnabled_def kept_def active_def)
next
  case (ConfigurationChanged en cu)
  show ?thesis using assms(1) by (simp add: ConfigurationChanged kept_def)
qed

lemma kept_run:
  "kept k x lst p s \<Longrightarrow> \<forall>t\<in>set (readings es). t < x \<Longrightarrow> kept k x lst p (run es s)"
proof (induction es rule: rev_induct)
  case Nil
  then show ?case by (simp add: run_def)
next
  case (snoc e es)
  then show ?case unfolding run_snoc by (intro kept_step) (simp_all add: readings_def)
qed

lemma continuation_success:
  assumes "\<not> truthy_str (r_error response)" "r_text response = JStr t" "t \<noteq> []"
  shows "continuation aw now (Resolves response) s =
     delete_pending (cb_key (aw_callback aw))
       (resolve (cb_promise (aw_callback aw))
          [\<lparr>insertText = postProcessCompletion (trim t) (aw_language aw) (aw_currentLine aw),
            range = (cb_position (aw_callback aw), cb_position (aw_callback aw))\<rparr>]
          (s\<lparr>completionCache := (completionCache s)(cb_key (aw_callback aw) \<mapsto> (now + 30000,
               [\<lparr>insertText = postProcessCompletion (trim t) (aw_language aw) (aw_currentLine aw),
                 range = (cb_position (aw_callback aw), cb_position (aw_callback aw))\<rparr>]))\<rparr>))"
  using assms by (simp add: continuation_def Let_def)

lemma provide_cached:
  assumes "enabled s" "shouldSkipCompletion doc pos ctx = Some False"
    "completionCache s (cache_key doc pos) = Some (x, lst)" "now < x"
  shows "provideInlineCompletionItems s doc pos ctx now d = (Returns lst, s)"
  using assms by (simp add: provideInlineCompletionItems_def Let_def)

lemma kept_after_success:
  assumes "inv s" "unsettled s" "map_of (awaiting s) c = Some aw"
    "\<not> truthy_str (r_error response)" "r_text response = JStr t" "t \<noteq> []"
  defines "lst \<equiv> [\<lparr>insertText = postProcessCompletion (trim t) (aw_language aw) (aw_currentLine aw),
                    range = (cb_position (aw_callback aw), cb_position (aw_callback aw))\<rparr>]"
  shows "kept (cb_key (aw_callback aw)) (now + 30000) lst (cb_promise (aw_callback aw))
           (step (Complete c now (Resolves response)) s)"
proof -
  let ?s1 = "s\<lparr>awaiting := filter (\<lambda>(c', a). c' \<noteq> c) (awaiting s)\<rparr>"
  let ?cb = "aw_callback aw"
  note r = call_removed [OF assms(1,3)]
  have core: "inv_core (pendingCompletions s) (active s) (nextPromise s)"
    using assms(1) by (simp add: inv_def)
  have st: "step (Complete c now (Resolves response)) s =
     delete_pending (cb_key ?cb) (resolve (cb_promise ?cb) lst
          (?s1\<lparr>completionCache := (completionCache ?s1)(cb_key ?cb \<mapsto> (now + 30000, lst))\<rparr>))"
    using assms(3) continuation_success [OF assms(4-6)] by (simp add: lst_def)
  have u: "settled s (cb_promise ?cb) = None"
    using assms(2) r(1) by (simp add: unsettled_def)
  have k: "cb_key cb' \<noteq> cb_key ?cb" if "cb' \<in> set (active ?s1)" for cb'
  proof
    assume e: "cb_key cb' = cb_key ?cb"
    have "cb' \<in> set (active s)" using that r(2) by auto
    then have "cb' = ?cb" using inv_core_same_key [OF core _ r(1) e] by simp
    then show False using that r(3) by (metis imageI)
  qed
  show ?thesis unfolding st kept_def
    using u k by (simp add: resolve_settled)
qed

text \<open>
  Claim C2: once a call has completed with a text and its result is cached, a second request
  for the same key before the entry expires (30000 ms after the completion) is given the cached
  list, which is the list the first promise was settled with, and the provider's state is
  unchanged by it: no timer, no call. Whatever happens in between happens before the expiry,
  and the second request passes the gates that come before the cache (the provider is enabled
  and the request is not skipped).
\<close>

theorem cached_completion_reused:
  assumes "map_of (awaiting (run es (new_provider en cu))) c = Some aw"
    and "\<not> truthy_str (r_error response)" and "r_text response = JStr t" and "t \<noteq> []"
    and "\<forall>x\<in>set (readings es'). x < now + 30000" and "now' < now + 30000"
    and "enabled (run es' (step (Complete c now (Resolves response)) (run es (new_provider en cu))))"
    and "shouldSkipCompletion document position context = Some False"
    and "cache_key document position = cb_key (aw_callback aw)"
  shows "settled (run es' (step (Complete c now (Resolves response)) (run es (new_provider en cu))))
           (cb_promise (aw_callback aw))
         = Some [\<lparr>insertText = postProcessCompletion (trim t) (aw_language aw) (aw_currentLine aw),
                  range = (cb_position (aw_callback aw), cb_position (aw_callback aw))\<rparr>]
   \<and> provideInlineCompletionItems
        (run es' (step (Complete c now (Resolves response)) (run es (new_provider en cu))))
        document position context now' delaySetting
       = (Returns [\<lparr>insertText = postProcessCompletion (trim t) (aw_language aw) (aw_currentLine aw),
                    range = (cb_position (aw_callback aw), cb_position (aw_callback aw))\<rparr>],
          run es' (step (Complete c now (Resolves response)) (run es (new_provider en cu))))"
proof -
  let ?s1 = "run es (new_provider en cu)"
  let ?s3 = "run es' (step (Complete c now (Resolves response)) ?s1)"
  let ?lst = "[\<lparr>insertText = postProcessCompletion (trim t) (aw_language aw) (aw_currentLine aw),
                range = (cb_position (aw_callback aw), cb_position (aw_callback aw))\<rparr>]"
  have "kept (cb_key (aw_callback aw)) (now + 30000) ?lst (cb_promise (aw_callback aw))
           (step (Complete c now (Resolves response)) ?s1)"
    using inv_reachable unsettled_reachable assms(1-4) by (rule kept_after_success)
  then have k: "kept (cb_key (aw_callback aw)) (now + 30000) ?lst (cb_promise (aw_callback aw)) ?s3"
    using assms(5) by (rule kept_run)
  then have "completionCache ?s3 (cache_key document position) = Some (now + 30000, ?lst)"
    using assms(9) by (simp add: kept_def)
  with assms(7,8) have "provideInlineCompletionItems ?s3 document position context now' delaySetting
       = (Returns ?lst, ?s3)"
    using assms(6) by (rule provide_cached)
  moreover have "settled ?s3 (cb_promise (aw_callback aw)) = Some ?lst"
    using k by (simp add: kept_def)
  ultimately show ?thesis by simp
qed

theorem cached_completion_reused_witness:
  "map_of (awaiting (run calling provider0)) 0 = Some aw0
   \<and> readings cached = [10500, 10900]
   \<and> enabled (run cached (step (Complete 0 10400 (Resolves ok_api_response)) (run calling provider0)))
   \<and> shouldSkipCompletion doc0 pos_a no_menu = Some False
   \<and> cache_key doc0 pos_a = cb_key (aw_callback aw0)
   \<and> settled (run cached (step (Complete 0 10400 (Resolves ok_api_response)) (run calling provider0))) 0
       = Some [\<lparr>insertText = '' x }'', range = (pos_a, pos_a)\<rparr>]
   \<and> provideInlineCompletionItems
        (run cached (step (Complete 0 10400 (Resolves ok_api_response)) (run calling provider0)))
        doc0 pos_a no_menu 40399 None
       = (Returns [\<lparr>insertText = '' x }'', range = (pos_a, pos_a)\<rparr>],
          run cached (step (Complete 0 10400 (Resolves ok_api_response)) (run calling provider0)))"
proof -
  have h1: "map_of (awaiting (run calling (new_provider None None))) 0 = Some aw0"
    by code_simp
  have h2: "\<not> truthy_str (r_error ok_api_response)" by code_simp
  have h3: "r_text ok_api_response = JStr ''{ x }''" by code_simp
  have h4: "''{ x }'' \<noteq> []" by simp
  have r: "readings cached = [10500, 10900]" by code_simp
  then have h5: "\<forall>x\<in>set (readings cached). x < 10400 + 30000" by simp
  have h6: "(40399::int) < 10400 + 30000" by simp
  have h7: "enabled (run cached (step (Complete 0 10400 (Resolves ok_api_response))
              (run calling (new_provider None None))))"
    by code_simp
  have h8: "shouldSkipCompletion doc0 pos_a no_menu = Some False" by code_simp
  have h9: "cache_key doc0 pos_a = cb_key (aw_callback aw0)" by code_simp
  have p: "postProcessCompletion (trim ''{ x }'') (aw_language aw0) (aw_currentLine aw0) = '' x }''"
    by code_simp
  have c: "cb_position (aw_callback aw0) = pos_a" "cb_promise (aw_callback aw0) = 0"
    by (simp_all add: aw0_def)
  note t = cached_completion_reused [OF h1 h2 h3 h4 h5 h6 h7 h8 h9, of None,
      unfolded p c, folded provider0_def]
  show ?thesis
    using t h1 r h7 h8 h9 by (simp add: provider0_def)
qed

subsection \<open>The rate limit\<close>

text \<open>A call of \<^verbatim>\<open>callModel\<close> is made by a timer's closure only, at least 1000 ms after the last one.\<close>

lemma issued_changes:
  assumes "issued (step e s) \<noteq> issued s"
  shows "\<exists>t now document cancelled modelSetting.
           e = Fire t now document cancelled modelSetting
         \<and> 1000 \<le> now - lastCompletionTime s
         \<and> lastCompletionTime (step e s) = now
         \<and> length (issued (step e s)) = Suc (length (issued s))"
proof (cases e)
  case (Provide doc pos ctx now d)
  from provide_same_or_new [of s doc pos ctx now d]
  have "issued (step e s) = issued s"
  proof (elim disjE conjE exE)
    assume "snd (provideInlineCompletionItems s doc pos ctx now d) = s"
    then show ?thesis by (simp add: Provide)
  next
    fix s1 cb
    assume s1: "s1 = (case debounceTimeout s of None \<Rightarrow> s | Some t \<Rightarrow> clearTimeout t s)"
      and e: "provideInlineCompletionItems s doc pos ctx now d =
                (Follows (nextPromise s),
                 s1\<lparr>debounceTimeout := Some (nextTimer s1),
                    timers := timers s1 @ [(nextTimer s1, cb)],
                    nextTimer := Suc (nextTimer s1),
                    nextPromise := Suc (nextPromise s1),
                    pendingCompletions := (pendingCompletions s1)(cache_key doc pos \<mapsto> nextPromise s1)\<rparr>)"
    note c = cleared_fields [of s, folded s1]
    show ?thesis by (simp add: Provide e c)
  qed
  then show ?thesis using assms by simp
next
  case (Fire t now doc c m)
  show ?thesis
  proof (cases "map_of (timers s) t")
    case None
    then show ?thesis using assms by (simp add: Fire)
  next
    case (Some cb)
    let ?s1 = "clearTimeout t s"
    have st: "step e s = timer_callback cb now doc c m ?s1"
      using Some by (simp add: Fire)
    from timer_callback_shape [of now ?s1 cb doc c m]
    show ?thesis
    proof (elim disjE conjE exE)
      assume "timer_callback cb now doc c m ?s1 = give_up cb ?s1"
      then show ?thesis using assms by (simp add: st)
    next
      assume "timer_callback cb now doc c m ?s1 = give_up cb (?s1\<lparr>lastCompletionTime := now\<rparr>)"
      then show ?thesis using assms by (simp add: st)
    next
      fix aw call
      assume l: "1000 \<le> now - lastCompletionTime ?s1"
        and e: "timer_callback cb now doc c m ?s1 =
             ?s1\<lparr>lastCompletionTime := now,
                 awaiting := awaiting ?s1 @ [(length (issued ?s1), aw)],
                 issued := issued ?s1 @ [call]\<rparr>"
      have "1000 \<le> now - lastCompletionTime s" using l by simp
      moreover have "lastCompletionTime (step e s) = now" by (simp add: st e)
      moreover have "length (issued (step e s)) = Suc (length (issued s))" by (simp add: st e)
      ultimately show ?thesis using Fire by blast
    qed
  qed
next
  case (Complete c now r)
  have "issued (step e s) = issued s"
  proof (cases "map_of (awaiting s) c")
    case None
    then show ?thesis by (simp add: Complete)
  next
    case (Some aw)
    have st: "step e s = continuation aw now r (s\<lparr>awaiting := filter (\<lambda>(c', a). c' \<noteq> c) (awaiting s)\<rparr>)"
      using Some by (simp add: Complete)
    from continuation_shape [of aw now r "s\<lparr>awaiting := filter (\<lambda>(c', a). c' \<noteq> c) (awaiting s)\<rparr>"]
    show ?thesis unfolding st by (elim disjE conjE exE) auto
  qed
  then show ?thesis using assms by simp
next
  case (SetEnabled b)
  then show ?thesis using assms by (simp add: setEnabled_def)
next
  case (ConfigurationChanged en cu)
  then show ?thesis using assms by simp
qed

text \<open>
  Claim C3 as stated fails: a call that started at 10300 completes at 12000; a request for
  another position arrives at 12100, less than a second later; its timer runs at 12400, which
  is more than a second after 10300, and the closure calls \<^verbatim>\<open>callModel\<close>.
\<close>

theorem request_soon_after_completed_call_contacts_network:
  "awaiting (run rate_before provider0) = []
   \<and> length (issued (run rate_before provider0)) = 1
   \<and> settled (run rate_before provider0) 0 \<noteq> None
   \<and> fst (provideInlineCompletionItems (run rate_before provider0) doc0 pos_b no_menu 12100 None)
       = Follows 1
   \<and> map fst (awaiting (run rate_after provider0)) = [1]
   \<and> length (issued (run rate_after provider0)) = 2
   \<and> settled (run rate_after provider0) 1 = None"
  by code_simp

text \<open>
  Claim C3, amended: the rate limit is applied when a timer's closure runs, against the clock
  reading at which the last closure passed it. A closure that runs less than 1000 ms after
  that reading settles its promise with the empty list, removes its key from the pending map
  and makes no call; and a step that makes a call is a timer's closure running at least
  1000 ms after that reading, which becomes the new reading. Neither the time at which the
  request arrived nor the time at which the previous call completed is looked at.
\<close>

theorem rate_limit_at_timer:
  "(map_of (timers (run es (new_provider en cu))) t = Some cb
      \<and> now - lastCompletionTime (run es (new_provider en cu)) < 1000
    \<longrightarrow> settled (step (Fire t now document cancelled modelSetting) (run es (new_provider en cu)))
            (cb_promise cb) = Some []
        \<and> pendingCompletions (step (Fire t now document cancelled modelSetting)
            (run es (new_provider en cu))) (cb_key cb) = None
        \<and> issued (step (Fire t now document cancelled modelSetting) (run es (new_provider en cu)))
            = issued (run es (new_provider en cu))
        \<and> awaiting (step (Fire t now document cancelled modelSetting) (run es (new_provider en cu)))
            = awaiting (run es (new_provider en cu))
        \<and> lastCompletionTime (step (Fire t now document cancelled modelSetting)
            (run es (new_provider en cu))) = lastCompletionTime (run es (new_provider en cu)))
   \<and> (issued (step e (run es (new_provider en cu))) \<noteq> issued (run es (new_provider en cu))
    \<longrightarrow> (\<exists>t' now' document' cancelled' modelSetting'.
           e = Fire t' now' document' cancelled' modelSetting'
         \<and> 1000 \<le> now' - lastCompletionTime (run es (new_provider en cu))
         \<and> lastCompletionTime (step e (run es (new_provider en cu))) = now'
         \<and> length (issued (step e (run es (new_provider en cu))))
             = Suc (length (issued (run es (new_provider en cu))))))"
proof -
  let ?s = "run es (new_provider en cu)"
  let ?s' = "step (Fire t now document cancelled modelSetting) ?s"
  have A: "map_of (timers ?s) t = Some cb \<and> now - lastCompletionTime ?s < 1000
    \<longrightarrow> settled ?s' (cb_promise cb) = Some []
        \<and> pendingCompletions ?s' (cb_key cb) = None
        \<and> issued ?s' = issued ?s
        \<and> awaiting ?s' = awaiting ?s
        \<and> lastCompletionTime ?s' = lastCompletionTime ?s"
  proof
    assume a: "map_of (timers ?s) t = Some cb \<and> now - lastCompletionTime ?s < 1000"
    then have m: "cb \<in> set (active ?s)" using map_of_SomeD [of "timers ?s" t cb] by (force simp: set_active)
    have u: "settled ?s (cb_promise cb) = None"
      using unsettled_reachable [of es en cu] m by (simp add: unsettled_def)
    have st: "?s' = give_up cb (clearTimeout t ?s)"
      using a by (simp add: timer_callback_def)
    show "settled ?s' (cb_promise cb) = Some []
        \<and> pendingCompletions ?s' (cb_key cb) = None
        \<and> issued ?s' = issued ?s
        \<and> awaiting ?s' = awaiting ?s
        \<and> lastCompletionTime ?s' = lastCompletionTime ?s"
      unfolding st using u by (simp add: give_up_settled)
  qed
  have B: "issued (step e ?s) \<noteq> issued ?s
    \<longrightarrow> (\<exists>t' now' document' cancelled' modelSetting'.
           e = Fire t' now' document' cancelled' modelSetting'
         \<and> 1000 \<le> now' - lastCompletionTime ?s
         \<and> lastCompletionTime (step e ?s) = now'
         \<and> length (issued (step e ?s)) = Suc (length (issued ?s)))"
    using issued_changes [of e ?s] by blast
  show ?thesis by (rule conjI [OF A B])
qed

theorem rate_limit_at_timer_witness:
  "map_of (timers (run limited provider0)) 1 = Some cb1
   \<and> 10700 - lastCompletionTime (run limited provider0) < 1000
   \<and> settled (step (Fire 1 10700 doc0 False None) (run limited provider0)) 1 = Some []
   \<and> pendingCompletions (step (Fire 1 10700 doc0 False None) (run limited provider0))
        (cb_key cb1) = None
   \<and> issued (step (Fire 1 10700 doc0 False None) (run limited provider0))
        = issued (run limited provider0)
   \<and> issued (step (Fire 0 10300 doc0 False None) (run first_request provider0))
        \<noteq> issued (run first_request provider0)
   \<and> 1000 \<le> 10300 - lastCompletionTime (run first_request provider0)
   \<and> lastCompletionTime (step (Fire 0 10300 doc0 False None) (run first_request provider0)) = 10300"
proof -
  have h1: "map_of (timers (run limited (new_provider None None))) 1 = Some cb1" by code_simp
  have h2: "10700 - lastCompletionTime (run limited (new_provider None None)) < 1000" by code_simp
  have h3: "issued (step (Fire 0 10300 doc0 False None) (run first_request (new_provider None None)))
        \<noteq> issued (run first_request (new_provider None None))" by code_simp
  have c: "cb_promise cb1 = 1" by (simp add: cb1_def)
  note a = rate_limit_at_timer [of limited None None 1 cb1 10700 doc0 False None
             "Fire 0 10300 doc0 False None", THEN conjunct1, rule_format, OF conjI [OF h1 h2],
             unfolded c]
  note b = rate_limit_at_timer [of first_request None None 1 cb1 10700 doc0 False None
             "Fire 0 10300 doc0 False None", THEN conjunct2, rule_format, OF h3]
  from b have "1000 \<le> 10300 - lastCompletionTime (run first_request (new_provider None None))
     \<and> lastCompletionTime (step (Fire 0 10300 doc0 False None)
           (run first_request (new_provider None None))) = 10300"
    by auto
  with a h1 h2 h3 show ?thesis by (simp add: provider0_def)
qed

end
